theory Spec2Isabelle
  imports Complex_Main
begin

text \<open>
  A shallow embedding of the crawler's mock API server and of the dashboard components
  that build, parse and submit request descriptions and display logs, with the properties
  of the specification that concern them. The first part holds the definitions, source
  file by source file; the second part holds the properties, claim by claim.
\<close>

section \<open>JavaScript values and library functions used by the sources\<close>

text \<open>
  The result of \<^verbatim>\<open>parseInt(s)\<close> is an integer or \<^verbatim>\<open>NaN\<close>; it is modelled as
  \<open>int option\<close> with \<open>None\<close> for \<^verbatim>\<open>NaN\<close> (the case of a missing or non-numeric query
  parameter). Numbers are unbounded integers where the sources only add and compare
  them, which is exact on JavaScript doubles below \<open>2^53\<close>. The users endpoint multiplies
  and divides by a parsed number, where an infinite operand (a numeral too large for a
  double) changes the result; its numbers are the type \<open>jsnum\<close> below.
\<close>

definition or_default :: "int option \<Rightarrow> int \<Rightarrow> int" where
  \<comment> \<open>\<^verbatim>\<open>x || d\<close> on a number: \<^verbatim>\<open>NaN\<close> and \<^verbatim>\<open>0\<close> are falsy.\<close>
  "or_default x d = (case x of None \<Rightarrow> d | Some v \<Rightarrow> if v = 0 then d else v)"

definition rel_index :: "nat \<Rightarrow> int \<Rightarrow> nat" where
  \<comment> \<open>The clamping of a relative index by \<^verbatim>\<open>Array.prototype.slice\<close>.\<close>
  "rel_index len i = (if i < 0 then nat (max (int len + i) 0) else min (nat i) len)"

definition js_slice :: "'a list \<Rightarrow> int \<Rightarrow> int \<Rightarrow> 'a list" where
  \<comment> \<open>\<^verbatim>\<open>xs.slice(s, e)\<close>\<close>
  "js_slice xs s e =
     (let k = rel_index (length xs) s; f = rel_index (length xs) e
      in take (f - k) (drop k xs))"

definition js_slice_from :: "'a list \<Rightarrow> int \<Rightarrow> 'a list" where
  \<comment> \<open>\<^verbatim>\<open>xs.slice(s)\<close>: the end defaults to the length.\<close>
  "js_slice_from xs s = drop (rel_index (length xs) s) xs"

definition js_rem :: "int \<Rightarrow> int \<Rightarrow> int" where
  \<comment> \<open>\<^verbatim>\<open>a % b\<close>: the remainder takes the sign of the dividend.\<close>
  "js_rem a b = sgn a * (\<bar>a\<bar> mod \<bar>b\<bar>)"

text \<open>
  A number that \<^verbatim>\<open>parseInt\<close> returns, and the numbers computed from it: \<^verbatim>\<open>NaN\<close>, a finite
  integer, \<^verbatim>\<open>Infinity\<close> (the value of a decimal numeral beyond the range of a double,
  some 309 digits) or \<^verbatim>\<open>-Infinity\<close>. A finite number is the integer it denotes, and the
  sign of a zero is not kept.
\<close>

datatype jsnum = NaN | Finite int | Infinity | MinusInfinity

definition num_or :: "jsnum \<Rightarrow> jsnum \<Rightarrow> jsnum" where
  \<comment> \<open>\<^verbatim>\<open>x || d\<close> on a number: \<^verbatim>\<open>NaN\<close> and \<^verbatim>\<open>0\<close> are falsy, an infinity is truthy.\<close>
  "num_or x d = (if x = NaN \<or> x = Finite 0 then d else x)"

definition num_sgn :: "jsnum \<Rightarrow> int" where
  "num_sgn x = (case x of NaN \<Rightarrow> 0 | Finite a \<Rightarrow> sgn a | Infinity \<Rightarrow> 1 | MinusInfinity \<Rightarrow> - 1)"

definition inf_of_sign :: "int \<Rightarrow> jsnum" where
  \<comment> \<open>The infinity of a sign; \<^verbatim>\<open>NaN\<close> where the sign is that of \<^verbatim>\<open>0 * Infinity\<close> or \<^verbatim>\<open>0 / 0\<close>.\<close>
  "inf_of_sign s = (if s = 0 then NaN else if 0 < s then Infinity else MinusInfinity)"

definition num_neg :: "jsnum \<Rightarrow> jsnum" where
  "num_neg x = (case x of NaN \<Rightarrow> NaN | Finite a \<Rightarrow> Finite (- a) | Infinity \<Rightarrow> MinusInfinity
                | MinusInfinity \<Rightarrow> Infinity)"

fun num_add :: "jsnum \<Rightarrow> jsnum \<Rightarrow> jsnum" where
  \<comment> \<open>\<^verbatim>\<open>x + y\<close> on numbers: \<^verbatim>\<open>Infinity + -Infinity\<close> is \<^verbatim>\<open>NaN\<close>.\<close>
  "num_add NaN y = NaN"
| "num_add x NaN = NaN"
| "num_add (Finite a) (Finite b) = Finite (a + b)"
| "num_add (Finite a) y = y"
| "num_add x (Finite b) = x"
| "num_add x y = (if x = y then x else NaN)"

definition num_sub :: "jsnum \<Rightarrow> jsnum \<Rightarrow> jsnum" where
  \<comment> \<open>\<^verbatim>\<open>x - y\<close>\<close>
  "num_sub x y = num_add x (num_neg y)"

fun num_mul :: "jsnum \<Rightarrow> jsnum \<Rightarrow> jsnum" where
  \<comment> \<open>\<^verbatim>\<open>x * y\<close> on numbers: \<^verbatim>\<open>0 * Infinity\<close> is \<^verbatim>\<open>NaN\<close>.\<close>
  "num_mul NaN y = NaN"
| "num_mul x NaN = NaN"
| "num_mul (Finite a) (Finite b) = Finite (a * b)"
| "num_mul x y = inf_of_sign (num_sgn x * num_sgn y)"

definition Math_ceil_div :: "int \<Rightarrow> jsnum \<Rightarrow> jsnum" where
  \<comment> \<open>\<^verbatim>\<open>Math.ceil(a / b)\<close> for a finite \<open>a\<close>: a finite number divided by an infinity is zero.\<close>
  "Math_ceil_div a b =
     (case b of
        NaN \<Rightarrow> NaN
      | Finite d \<Rightarrow> if d = 0 then inf_of_sign (sgn a) else Finite \<lceil>real_of_int a / real_of_int d\<rceil>
      | Infinity \<Rightarrow> Finite 0
      | MinusInfinity \<Rightarrow> Finite 0)"

definition num_rel_index :: "nat \<Rightarrow> jsnum \<Rightarrow> nat" where
  \<comment> \<open>The clamping of a relative index that is any number: \<^verbatim>\<open>NaN\<close> counts as \<open>0\<close>,
      \<^verbatim>\<open>Infinity\<close> as the length, \<^verbatim>\<open>-Infinity\<close> as \<open>0\<close>.\<close>
  "num_rel_index len x =
     (case x of NaN \<Rightarrow> 0 | Finite i \<Rightarrow> rel_index len i | Infinity \<Rightarrow> len | MinusInfinity \<Rightarrow> 0)"

definition js_slice_num :: "'a list \<Rightarrow> jsnum \<Rightarrow> jsnum \<Rightarrow> 'a list" where
  \<comment> \<open>\<^verbatim>\<open>xs.slice(s, e)\<close> for indices that are any numbers.\<close>
  "js_slice_num xs s e =
     (let k = num_rel_index (length xs) s; f = num_rel_index (length xs) e
      in take (f - k) (drop k xs))"

definition Math_floor_times :: "real \<Rightarrow> int \<Rightarrow> int" where
  \<comment> \<open>\<^verbatim>\<open>Math.floor(Math.random() * k)\<close> for the draw \<open>r\<close>.\<close>
  "Math_floor_times r k = \<lfloor>r * real_of_int k\<rfloor>"

definition digit_char :: "nat \<Rightarrow> char" where
  "digit_char d = char_of (48 + d)"

function string_of_nat :: "nat \<Rightarrow> string" where
  "string_of_nat n =
     (if n < 10 then [digit_char n] else string_of_nat (n div 10) @ [digit_char (n mod 10)])"
  by pat_completeness auto
termination
  by (relation "measure (\<lambda>n. n)") auto

declare string_of_nat.simps [simp del]

definition string_of_int :: "int \<Rightarrow> string" where
  \<comment> \<open>The decimal rendering of an integer inside a template literal.\<close>
  "string_of_int i = (if i < 0 then CHR ''-'' # string_of_nat (nat (- i)) else string_of_nat (nat i))"

definition pick :: "'a list \<Rightarrow> int \<Rightarrow> 'a option" where
  \<comment> \<open>\<^verbatim>\<open>xs[i]\<close>: \<^verbatim>\<open>undefined\<close> (\<open>None\<close>) outside the array.\<close>
  "pick xs i = (if 0 \<le> i \<and> nat i < length xs then Some (xs ! nat i) else None)"

section \<open>The mock server (mock-server/server.js)\<close>

text \<open>
  The clock and the random generator are parameters: \<open>now_at i\<close> is the reading of
  \<^verbatim>\<open>Date.now()\<close> while item \<open>i\<close> is built, \<open>rnd_likes i\<close> and \<open>rnd_comments i\<close> are the
  draws of \<^verbatim>\<open>Math.random()\<close> for post \<open>i\<close>. A timestamp field holds the epoch
  milliseconds that the source renders with \<^verbatim>\<open>toISOString\<close>.
\<close>

record env =
  now_at :: "int \<Rightarrow> int"
  rnd_likes :: "int \<Rightarrow> real"
  rnd_comments :: "int \<Rightarrow> real"

definition sample_env :: env where
  \<comment> \<open>A fixed clock and fixed draws, for evaluating the handlers on concrete requests.\<close>
  "sample_env = \<lparr> now_at = (\<lambda>i. 1700000000000), rnd_likes = (\<lambda>i. 1 / 2), rnd_comments = (\<lambda>i. 1 / 4) \<rparr>"

subsection \<open>Sample data\<close>

record user =
  user_id :: int
  user_name :: string
  user_email :: string
  user_age :: int
  user_city :: "string option"
  user_created_at :: int

definition cities :: "string list" where
  "cities = [''New York'', ''Los Angeles'', ''Chicago'', ''Houston'', ''Phoenix'']"

definition mk_user :: "env \<Rightarrow> int \<Rightarrow> user" where
  "mk_user e i =
     \<lparr> user_id = i,
       user_name = ''User '' @ string_of_int i,
       user_email = ''user'' @ string_of_int i @ ''@example.com'',
       user_age = 20 + js_rem i 50,
       user_city = pick cities (js_rem i 5),
       user_created_at = now_at e i - i * 86400000 \<rparr>"

definition generateUsers :: "env \<Rightarrow> int \<Rightarrow> user list" where
  \<comment> \<open>\<^verbatim>\<open>for (let i = 1; i <= count; i++) users.push(...)\<close>\<close>
  "generateUsers e count = map (mk_user e) [1..count]"

record post =
  post_id :: int
  post_title :: string
  post_body :: string
  post_author_id :: int
  post_likes :: int
  post_comments_count :: int
  post_published_at :: int

definition mk_post :: "env \<Rightarrow> int \<Rightarrow> post" where
  "mk_post e i =
     \<lparr> post_id = i,
       post_title = ''Post Title '' @ string_of_int i,
       post_body = ''This is the body content for post '' @ string_of_int i
                     @ ''. It contains some sample text.'',
       post_author_id = js_rem i 10 + 1,
       post_likes = Math_floor_times (rnd_likes e i) 1000,
       post_comments_count = Math_floor_times (rnd_comments e i) 100,
       post_published_at = now_at e i - i * 3600000 \<rparr>"

definition generatePosts :: "env \<Rightarrow> int \<Rightarrow> post list" where
  "generatePosts e count = map (mk_post e) [1..count]"

definition USERS :: "env \<Rightarrow> user list" where
  "USERS e = generateUsers e 150"

definition POSTS :: "env \<Rightarrow> post list" where
  "POSTS e = generatePosts e 500"

subsection \<open>GET /api/users: page-based pagination\<close>

record pagination =
  currentPage :: jsnum
  perPage :: jsnum
  totalPages :: jsnum
  totalItems :: int

record users_response =
  users_data :: "user list"
  users_pagination :: pagination

definition users_handler :: "env \<Rightarrow> jsnum \<Rightarrow> jsnum \<Rightarrow> users_response" where
  \<comment> \<open>The arguments are \<^verbatim>\<open>parseInt(req.query.page)\<close> and \<^verbatim>\<open>parseInt(req.query.per_page)\<close>;
      the result is the object handed to \<^verbatim>\<open>res.json\<close>, before it is serialised.\<close>
  "users_handler e qpage qper_page =
     (let page = num_or qpage (Finite 1);
          perPage = num_or qper_page (Finite 10);
          startIndex = num_mul (num_sub page (Finite 1)) perPage;
          endIndex = num_add startIndex perPage;
          paginatedUsers = js_slice_num (USERS e) startIndex endIndex
      in \<lparr> users_data = paginatedUsers,
           users_pagination =
             \<lparr> currentPage = page,
               perPage = perPage,
               totalPages = Math_ceil_div (int (length (USERS e))) perPage,
               totalItems = int (length (USERS e)) \<rparr> \<rparr>)"

subsection \<open>GET /api/posts: offset-based pagination\<close>

record posts_meta =
  meta_offset :: int
  meta_limit :: int
  meta_total :: int
  meta_has_more :: bool

record posts_response =
  posts_items :: "post list"
  posts_meta :: posts_meta

definition posts_handler :: "env \<Rightarrow> int option \<Rightarrow> int option \<Rightarrow> posts_response" where
  \<comment> \<open>The arguments are \<^verbatim>\<open>parseInt(req.query.offset)\<close> and \<^verbatim>\<open>parseInt(req.query.limit)\<close>.\<close>
  "posts_handler e qoffset qlimit =
     (let offset = or_default qoffset 0;
          limit = or_default qlimit 25;
          paginatedPosts = js_slice (POSTS e) offset (offset + limit)
      in \<lparr> posts_items = paginatedPosts,
           posts_meta =
             \<lparr> meta_offset = offset,
               meta_limit = limit,
               meta_total = int (length (POSTS e)),
               meta_has_more = (offset + limit < int (length (POSTS e))) \<rparr> \<rparr>)"

subsection \<open>GET /api/comments: cursor-based pagination\<close>

record comment =
  comment_id :: int
  comment_post_id :: int
  comment_user_id :: int
  comment_content :: string
  comment_created_at :: int

definition mk_comment :: "env \<Rightarrow> int \<Rightarrow> comment" where
  "mk_comment e i =
     \<lparr> comment_id = i + 1,
       comment_post_id = js_rem i 50 + 1,
       comment_user_id = js_rem i 30 + 1,
       comment_content = ''This is comment '' @ string_of_int (i + 1) @ ''. Great post!'',
       comment_created_at = now_at e i - i * 1800000 \<rparr>"

record comments_response =
  comments_data :: "comment list"
  next_cursor :: "int option"
  has_more :: bool

definition comments_handler :: "env \<Rightarrow> int option \<Rightarrow> int option \<Rightarrow> comments_response" where
  \<comment> \<open>The arguments are \<^verbatim>\<open>parseInt(req.query.cursor)\<close> and \<^verbatim>\<open>parseInt(req.query.limit)\<close>;
      \<open>next_cursor = None\<close> is the JSON \<^verbatim>\<open>null\<close>.\<close>
  "comments_handler e qcursor qlimit =
     (let cursor = or_default qcursor 0;
          limit = or_default qlimit 20;
          comments = map (mk_comment e) [cursor..min (cursor + limit) 300 - 1];
          nextCursor = (if cursor + limit < 300 then Some (cursor + limit) else None)
      in \<lparr> comments_data = comments,
           next_cursor = nextCursor,
           has_more = (nextCursor \<noteq> None) \<rparr>)"

subsection \<open>GET /api/flaky: the endpoint that fails two calls out of three\<close>

record flaky_item =
  item_id :: int
  item_value :: string
  item_timestamp :: int

datatype flaky_body =
    FlakyError string nat
  | FlakyPage "flaky_item list" int int string

record flaky_response =
  flaky_status :: nat
  flaky_body :: flaky_body

definition mk_flaky_item :: "env \<Rightarrow> int \<Rightarrow> int \<Rightarrow> flaky_item" where
  "mk_flaky_item e startId i =
     \<lparr> item_id = startId + i,
       item_value = ''Item '' @ string_of_int (startId + i),
       item_timestamp = now_at e (startId + i) \<rparr>"

definition flaky_handler :: "env \<Rightarrow> nat \<Rightarrow> int option \<Rightarrow> nat \<times> flaky_response" where
  \<comment> \<open>The state is the global \<^verbatim>\<open>flakyCallCount\<close>; the last argument is
      \<^verbatim>\<open>parseInt(req.query.page)\<close>. The loop
      \<^verbatim>\<open>for (let i = 0; i < limit && startId + i <= 50; i++)\<close> runs over
      \<open>i = 0, \<dots>, min (limit - 1) (50 - startId)\<close>.\<close>
  "flaky_handler e flakyCallCount qpage =
     (let count = flakyCallCount + 1
      in if count mod 3 \<noteq> 0
         then (count, \<lparr> flaky_status = 500, flaky_body = FlakyError ''Random server error'' count \<rparr>)
         else
           (let page = or_default qpage 1;
                limit = 10;
                startId = (page - 1) * limit + 1;
                data = map (mk_flaky_item e startId) [0..min (limit - 1) (50 - startId)]
            in (count,
                \<lparr> flaky_status = 200,
                  flaky_body = FlakyPage data page 5
                    ''This endpoint sometimes fails to test retry logic'' \<rparr>)))"

section \<open>The crawl job engine\<close>

text \<open>
  The engine (detector, scheduler, job validation) is not among the sources: only the
  dashboard that calls it and the mock server it crawls are. Its rules are modelled from
  the specification, each definition saying so.
\<close>

subsection \<open>Termination rules of the pagination strategies\<close>

definition cursor_terminates :: "'t option \<Rightarrow> bool" where
  \<comment> \<open>Modelled from the spec: the detector's cursor rule is not among the sources.
      ``Termination when the token is absent or null'': the argument is the token
      extracted from the prior response, \<open>None\<close> when absent or null.\<close>
  "cursor_terminates token = (token = None)"

definition offset_terminates :: "nat \<Rightarrow> int \<Rightarrow> bool \<Rightarrow> bool" where
  \<comment> \<open>Modelled from the spec: the detector's offset rule is not among the sources.
      ``Termination when the returned page is smaller than limit or an explicit "no more"
      boundary is present'': the arguments are the size of the returned page, the limit
      and whether the response carries the boundary.\<close>
  "offset_terminates page_size limit no_more = (int page_size < limit \<or> no_more)"

subsection \<open>Job state and the scheduler loop\<close>

datatype job_status = Pending | Running | Paused | Completed | Failed | Stopped

datatype log_level = Debug | Info | Success | Warning | Error

record log_entry =
  entry_level :: log_level
  entry_message :: string

datatype pause = Backoff nat | Interval nat

record job =
  job_status :: job_status
  current_page :: nat
  total_records :: nat
  retry_count :: nat
  error_message :: "string option"
  max_pages :: "nat option"
  start_date :: "int option"
  end_date :: "int option"
  job_logs :: "log_entry list"
  job_notifications :: "string list"
  job_pauses :: "pause list"

definition is_2xx :: "nat \<Rightarrow> bool" where
  "is_2xx code = (200 \<le> code \<and> code < 300)"

definition on_success :: "nat \<Rightarrow> nat \<Rightarrow> job \<Rightarrow> job" where
  \<comment> \<open>Modelled from the spec: the scheduler is not among the sources. Step (c) of the
      loop: on success reset \<open>retry_count\<close> to 0, increment \<open>current_page\<close> and
      \<open>total_records\<close>, log success, wait the inter-request delay. The arguments are the
      number of records of the page and the delay computed for this iteration, in
      seconds.\<close>
  "on_success n delay j =
     j\<lparr> retry_count := 0,
        current_page := current_page j + 1,
        total_records := total_records j + n,
        job_logs := job_logs j @ [\<lparr> entry_level = Success, entry_message = ''page fetched'' \<rparr>],
        job_pauses := job_pauses j @ [Interval delay] \<rparr>"

definition on_failure :: "string \<Rightarrow> job \<Rightarrow> job" where
  \<comment> \<open>Modelled from the spec: the scheduler is not among the sources. Step (d) of the
      loop: increment \<open>retry_count\<close>; if it is below 3, back off \<open>2 ^ retry_count\<close>
      seconds, log a warning and retry the same page; at 3 transition to failed, set
      \<open>error_message\<close> and emit an error notification.\<close>
  "on_failure msg j =
     (let r = retry_count j + 1
      in if r < 3
         then j\<lparr> retry_count := r,
                 job_logs := job_logs j @ [\<lparr> entry_level = Warning, entry_message = msg \<rparr>],
                 job_pauses := job_pauses j @ [Backoff (2 ^ r)] \<rparr>
         else j\<lparr> retry_count := r,
                 job_status := Failed,
                 error_message := Some msg,
                 job_notifications := job_notifications j @ [msg] \<rparr>)"

function crawl_page :: "('s \<Rightarrow> 's \<times> nat \<times> nat) \<Rightarrow> nat \<Rightarrow> 's \<Rightarrow> job \<Rightarrow> 's \<times> job" where
  \<comment> \<open>Modelled from the spec: the scheduler is not among the sources. One page of the
      loop, steps (c) and (d): fetch, and on failure retry the same page until it
      succeeds or the job has failed. \<open>fetch\<close> is the source being crawled, a function
      of its state giving the new state, the HTTP status and the number of records.\<close>
  "crawl_page fetch delay s j =
     (if job_status j \<noteq> Running then (s, j)
      else
        (let (s', code, n) = fetch s
         in if is_2xx code then (s', on_success n delay j)
            else if job_status (on_failure (''HTTP '' @ string_of_nat code) j) = Failed
            then (s', on_failure (''HTTP '' @ string_of_nat code) j)
            else crawl_page fetch delay s' (on_failure (''HTTP '' @ string_of_nat code) j)))"
  by pat_completeness auto
termination
proof (relation "measure (\<lambda>(fetch, delay, s, j). 3 - retry_count j)")
  show "wf (measure (\<lambda>(fetch, delay, s, j). 3 - retry_count j))"
    by simp
next
  fix fetch :: "'s \<Rightarrow> 's \<times> nat \<times> nat" and delay :: nat and s :: 's and j :: job
    and x :: "'s \<times> nat \<times> nat" and s' :: 's and y :: "nat \<times> nat" and code n :: nat
  assume "job_status (on_failure (''HTTP '' @ string_of_nat code) j) \<noteq> Failed"
  then have "retry_count j + 1 < 3"
    and "retry_count (on_failure (''HTTP '' @ string_of_nat code) j) = retry_count j + 1"
    by (auto simp: on_failure_def Let_def split: if_splits)
  then show "((fetch, delay, s', on_failure (''HTTP '' @ string_of_nat code) j), (fetch, delay, s, j))
          \<in> measure (\<lambda>(fetch, delay, s, j). 3 - retry_count j)"
    by simp
qed

declare crawl_page.simps [simp del]

definition loop_check :: "int \<Rightarrow> bool \<Rightarrow> job \<Rightarrow> job" where
  \<comment> \<open>Modelled from the spec: the scheduler is not among the sources. Steps (a) and (b)
      at the head of an iteration: a pending job stays pending before \<open>start_date\<close> and
      starts running otherwise; a running job transitions to completed when now is past
      \<open>end_date\<close>, \<open>max_pages\<close> is reached or the detector has signalled termination
      (the second argument).\<close>
  "loop_check now terminated j =
     (case job_status j of
        Pending \<Rightarrow>
          (case start_date j of
             Some d \<Rightarrow> if now < d then j else j\<lparr> job_status := Running \<rparr>
           | None \<Rightarrow> j\<lparr> job_status := Running \<rparr>)
      | Running \<Rightarrow>
          if (case end_date j of Some d \<Rightarrow> d < now | None \<Rightarrow> False)
             \<or> (case max_pages j of Some m \<Rightarrow> m \<le> current_page j | None \<Rightarrow> False)
             \<or> terminated
          then j\<lparr> job_status := Completed \<rparr> else j
      | _ \<Rightarrow> j)"

definition flaky_fetch :: "env \<Rightarrow> int option \<Rightarrow> nat \<Rightarrow> nat \<times> nat \<times> nat" where
  \<comment> \<open>The flaky endpoint seen as a source: status and number of records of the page.\<close>
  "flaky_fetch e qpage count =
     (let (count', r) = flaky_handler e count qpage
      in (count', flaky_status r,
          (case flaky_body r of FlakyError _ _ \<Rightarrow> 0 | FlakyPage d _ _ _ \<Rightarrow> length d)))"

definition new_job :: job where
  \<comment> \<open>A job as created: pending, all counters 0.\<close>
  "new_job =
     \<lparr> job_status = Pending, current_page = 0, total_records = 0, retry_count = 0,
       error_message = None, max_pages = None, start_date = None, end_date = None,
       job_logs = [], job_notifications = [], job_pauses = [] \<rparr>"

definition running_job :: job where
  \<comment> \<open>A job that has just started running.\<close>
  "running_job = new_job\<lparr> job_status := Running \<rparr>"

section \<open>The dashboard (frontend)\<close>

text \<open>
  A string is the list of its code units, restricted to the code units below 256 (the
  type \<open>char\<close>). The characters that cannot be written inside a term are named.
\<close>

subsection \<open>Strings\<close>

definition dquote :: char where "dquote = CHR 0x22"
definition squote :: char where "squote = CHR 0x27"
definition backslash :: char where "backslash = CHR 0x5C"
definition newline :: char where "newline = CHR 0x0A"

definition is_space :: "char \<Rightarrow> bool" where
  \<comment> \<open>The class \<^verbatim>\<open>\s\<close> of a regular expression and the characters \<^verbatim>\<open>trim\<close> removes: tab,
      line feed, vertical tab, form feed, carriage return, space, no-break space.\<close>
  "is_space c = (c = CHR 0x09 \<or> c = CHR 0x0A \<or> c = CHR 0x0B \<or> c = CHR 0x0C \<or> c = CHR 0x0D
                 \<or> c = CHR 0x20 \<or> c = CHR 0xA0)"

definition code_unit :: "char \<Rightarrow> nat" where
  \<comment> \<open>\<^verbatim>\<open>c.charCodeAt(0)\<close>\<close>
  "code_unit c = of_char c"

definition is_digit :: "char \<Rightarrow> bool" where
  \<comment> \<open>\<open>0\<close> to \<open>9\<close>\<close>
  "is_digit c = (48 \<le> code_unit c \<and> code_unit c \<le> 57)"

definition is_word :: "char \<Rightarrow> bool" where
  \<comment> \<open>The class \<^verbatim>\<open>\w\<close> of a regular expression: letters, digits and the underscore.\<close>
  "is_word c = ((65 \<le> code_unit c \<and> code_unit c \<le> 90) \<or> (97 \<le> code_unit c \<and> code_unit c \<le> 122)
                \<or> is_digit c \<or> c = CHR ''_'')"

definition js_trim :: "string \<Rightarrow> string" where
  \<comment> \<open>\<^verbatim>\<open>s.trim()\<close>\<close>
  "js_trim s = rev (dropWhile is_space (rev (dropWhile is_space s)))"

fun js_split :: "char \<Rightarrow> string \<Rightarrow> string list" where
  \<comment> \<open>\<^verbatim>\<open>s.split(sep)\<close> for a separator of one character; the result is never empty.\<close>
  "js_split sep [] = [[]]"
| "js_split sep (c # s) =
     (if c = sep then [] # js_split sep s
      else (case js_split sep s of p # ps \<Rightarrow> (c # p) # ps | [] \<Rightarrow> [[c]]))"

fun js_join :: "char \<Rightarrow> string list \<Rightarrow> string" where
  \<comment> \<open>\<^verbatim>\<open>parts.join(sep)\<close>\<close>
  "js_join sep [] = []"
| "js_join sep [p] = p"
| "js_join sep (p # q # ps) = p @ sep # js_join sep (q # ps)"

definition startsWith :: "string \<Rightarrow> string \<Rightarrow> bool" where
  \<comment> \<open>\<^verbatim>\<open>s.startsWith(p)\<close>\<close>
  "startsWith s p = (take (length p) s = p)"

definition interp :: "string option \<Rightarrow> string" where
  \<comment> \<open>\<^verbatim>\<open>${v}\<close> inside a template literal, and \<^verbatim>\<open>v\<close> used as a property name: \<open>None\<close> is
      \<^verbatim>\<open>undefined\<close>.\<close>
  "interp v = (case v of None \<Rightarrow> ''undefined'' | Some s \<Rightarrow> s)"

definition truthy_str :: "string option \<Rightarrow> bool" where
  \<comment> \<open>The truthiness of a string that may be \<^verbatim>\<open>undefined\<close> or \<^verbatim>\<open>null\<close>: the empty string
      is falsy.\<close>
  "truthy_str v = (case v of None \<Rightarrow> False | Some s \<Rightarrow> s \<noteq> [])"

subsection \<open>Objects with string keys\<close>

text \<open>
  An object is the list of its properties in insertion order. Assigning to a property
  that exists replaces its value in place; \<^verbatim>\<open>Object.entries\<close> lists the array indices
  first, in ascending order, then the other names in insertion order.
\<close>

fun obj_set :: "(string \<times> 'v) list \<Rightarrow> string \<Rightarrow> 'v \<Rightarrow> (string \<times> 'v) list" where
  \<comment> \<open>Defining or replacing the own property \<open>k\<close>.\<close>
  "obj_set [] k v = [(k, v)]"
| "obj_set (p # ps) k v = (if fst p = k then (k, v) # ps else p # obj_set ps k v)"

definition js_assign :: "(string \<times> 'v) list \<Rightarrow> string \<Rightarrow> 'v \<Rightarrow> (string \<times> 'v) list" where
  \<comment> \<open>\<^verbatim>\<open>obj[k] = v\<close> on an object created by \<^verbatim>\<open>{}\<close>, for a value that is a string or
      \<^verbatim>\<open>undefined\<close>: the name \<^verbatim>\<open>__proto__\<close> is the accessor inherited from
      \<^verbatim>\<open>Object.prototype\<close>, whose setter ignores such a value, so no property is stored.\<close>
  "js_assign obj k v = (if k = ''__proto__'' then obj else obj_set obj k v)"

definition int_of_digits :: "string \<Rightarrow> int" where
  \<comment> \<open>The number a string of decimal digits denotes.\<close>
  "int_of_digits s = foldl (\<lambda>a c. 10 * a + (int (code_unit c) - 48)) 0 s"

definition is_array_index :: "string \<Rightarrow> bool" where
  \<comment> \<open>A property name that is an array index: the canonical decimal form of an integer
      from 0 to \<open>2^32 - 2\<close>.\<close>
  "is_array_index k =
     (k \<noteq> [] \<and> list_all is_digit k \<and> (k = ''0'' \<or> hd k \<noteq> CHR ''0'')
      \<and> int_of_digits k < 4294967295)"

definition Object_entries :: "(string \<times> 'v) list \<Rightarrow> (string \<times> 'v) list" where
  \<comment> \<open>\<^verbatim>\<open>Object.entries(obj)\<close>\<close>
  "Object_entries obj =
     sort_key (\<lambda>p. int_of_digits (fst p)) (filter (\<lambda>p. is_array_index (fst p)) obj)
     @ filter (\<lambda>p. \<not> is_array_index (fst p)) obj"

subsection \<open>Regular expressions of the jobs list\<close>

text \<open>
  Each regular expression of \<^verbatim>\<open>extractRequestFromJob\<close> is a function that tries the
  expression at the start of a text, and a search that tries every position from the
  left. The greedy quantifiers of these expressions never need to give characters back:
  each is followed by a character outside its class.
\<close>

fun find_first :: "(string \<Rightarrow> 'a option) \<Rightarrow> string \<Rightarrow> 'a option" where
  \<comment> \<open>\<^verbatim>\<open>s.match(re)\<close>: the leftmost position where the expression matches.\<close>
  "find_first m [] = m []"
| "find_first m (c # s) = (case m (c # s) of Some r \<Rightarrow> Some r | None \<Rightarrow> find_first m s)"

definition match_method_at :: "string \<Rightarrow> string option" where
  \<comment> \<open>\<^verbatim>\<open>/-X\s+(\w+)/\<close> at the start of \<open>s\<close>; the result is the group.\<close>
  "match_method_at s =
     (if startsWith s ''-X''
      then (let r = drop 2 s;
                w = takeWhile is_word (dropWhile is_space r)
            in if takeWhile is_space r \<noteq> [] \<and> w \<noteq> [] then Some w else None)
      else None)"

definition quoted :: "char \<Rightarrow> string \<Rightarrow> (string \<times> string) option" where
  \<comment> \<open>\<^verbatim>\<open>q([^q]+)q\<close> at the start of \<open>s\<close> for a quote character \<open>q\<close>; the result is the group
      and the text after the match.\<close>
  "quoted q s =
     (case s of
        [] \<Rightarrow> None
      | c # t \<Rightarrow>
          if c = q \<and> takeWhile (\<lambda>x. x \<noteq> q) t \<noteq> [] \<and> dropWhile (\<lambda>x. x \<noteq> q) t \<noteq> []
          then Some (takeWhile (\<lambda>x. x \<noteq> q) t, tl (dropWhile (\<lambda>x. x \<noteq> q) t))
          else None)"

definition match_url_at :: "string \<Rightarrow> string option" where
  \<comment> \<open>\<^verbatim>\<open>/curl\s+"([^"]+)"|curl\s+'([^']+)'|curl\s+(\S+)/\<close> at the start of \<open>s\<close>: the three
      alternatives in order; the result is \<^verbatim>\<open>urlMatch[1] || urlMatch[2] || urlMatch[3]\<close>.\<close>
  "match_url_at s =
     (if startsWith s ''curl'' \<and> takeWhile is_space (drop 4 s) \<noteq> []
      then (let r = dropWhile is_space (drop 4 s)
            in case quoted dquote r of
                 Some (u, _) \<Rightarrow> Some u
               | None \<Rightarrow>
                   (case quoted squote r of
                      Some (u, _) \<Rightarrow> Some u
                    | None \<Rightarrow>
                        if takeWhile (\<lambda>x. \<not> is_space x) r \<noteq> []
                        then Some (takeWhile (\<lambda>x. \<not> is_space x) r) else None))
      else None)"

definition match_header_at :: "string \<Rightarrow> (string \<times> string) option" where
  \<comment> \<open>\<^verbatim>\<open>/-H\s+"([^"]+)"/\<close> at the start of \<open>s\<close>; the result is the group and the text after
      the match.\<close>
  "match_header_at s =
     (if startsWith s ''-H'' \<and> takeWhile is_space (drop 2 s) \<noteq> []
      then quoted dquote (dropWhile is_space (drop 2 s))
      else None)"

lemma quoted_shorter: "quoted q s = Some (u, rest) \<Longrightarrow> length rest < length s"
proof -
  assume a: "quoted q s = Some (u, rest)"
  then obtain c t where s: "s = c # t" and r: "rest = tl (dropWhile (\<lambda>x. x \<noteq> q) t)"
    by (auto simp: quoted_def split: list.splits if_splits)
  have "length (dropWhile (\<lambda>x. x \<noteq> q) t) \<le> length t"
    by (rule length_dropWhile_le)
  then have "length (tl (dropWhile (\<lambda>x. x \<noteq> q) t)) \<le> length t"
    by simp
  then show ?thesis
    by (simp add: s r)
qed

lemma match_header_at_shorter: "match_header_at s = Some (u, rest) \<Longrightarrow> length rest < length s"
proof -
  assume "match_header_at s = Some (u, rest)"
  then have "quoted dquote (dropWhile is_space (drop 2 s)) = Some (u, rest)"
    by (simp add: match_header_at_def split: if_splits)
  then have "length rest < length (dropWhile is_space (drop 2 s))"
    by (rule quoted_shorter)
  also have "\<dots> \<le> length (drop 2 s)"
    by (rule length_dropWhile_le)
  finally show ?thesis
    by simp
qed

function matchAll_headers :: "string \<Rightarrow> string list" where
  \<comment> \<open>\<^verbatim>\<open>curlCommand.matchAll(/-H\s+"([^"]+)"/g)\<close>: the groups of the successive matches, each
      search starting where the previous match ended.\<close>
  "matchAll_headers [] = []"
| "matchAll_headers (c # s) =
     (case match_header_at (c # s) of
        Some (u, rest) \<Rightarrow> u # matchAll_headers rest
      | None \<Rightarrow> matchAll_headers s)"
  by pat_completeness auto
termination
  by (relation "measure length") (auto dest: match_header_at_shorter)

declare matchAll_headers.simps [simp del]

text \<open>A row of a key-value editor, \<^verbatim>\<open>{ key, value, enabled }\<close>.\<close>

record kv =
  kv_key :: string
  kv_value :: string
  kv_enabled :: bool

definition header_of_match :: "string \<Rightarrow> kv list" where
  \<comment> \<open>The body of the loop over the header matches: what it pushes for the group \<open>m\<close>.\<close>
  "header_of_match m =
     (case js_split (CHR '':'') m of
        [] \<Rightarrow> []
      | key # valueParts \<Rightarrow>
          if key \<noteq> []
          then [\<lparr> kv_key = js_trim key, kv_value = js_trim (js_join (CHR '':'') valueParts),
                  kv_enabled = True \<rparr>]
          else [])"

subsection \<open>JSON values\<close>

text \<open>
  A parsed JSON value; an object lists its properties in order, and a property is looked
  up by its name.
\<close>

datatype json =
    JNull
  | JBool bool
  | JNum rat
  | JStr string
  | JArr "json list"
  | JObj "(string \<times> json) list"

datatype js_error = SyntaxError | TypeError

definition truthy :: "json option \<Rightarrow> bool" where
  \<comment> \<open>The truthiness of a property value; \<open>None\<close> is \<^verbatim>\<open>undefined\<close>.\<close>
  "truthy v =
     (case v of
        None \<Rightarrow> False
      | Some JNull \<Rightarrow> False
      | Some (JBool b) \<Rightarrow> b
      | Some (JNum n) \<Rightarrow> n \<noteq> 0
      | Some (JStr s) \<Rightarrow> s \<noteq> []
      | Some (JArr _) \<Rightarrow> True
      | Some (JObj _) \<Rightarrow> True)"

definition property :: "json \<Rightarrow> string \<Rightarrow> js_error + json option" where
  \<comment> \<open>\<^verbatim>\<open>v.k\<close>: reading a property of \<^verbatim>\<open>null\<close> throws a TypeError, a missing property
      is \<^verbatim>\<open>undefined\<close>.\<close>
  "property v k =
     (case v of
        JNull \<Rightarrow> Inl TypeError
      | JObj kvs \<Rightarrow> Inr (map_of kvs k)
      | _ \<Rightarrow> Inr None)"

subsection \<open>The live log viewer (LiveLogViewer.jsx)\<close>

definition onmessage :: "json list \<Rightarrow> js_error + json \<Rightarrow> json list" where
  \<comment> \<open>\<^verbatim>\<open>eventSource.onmessage\<close> as a function of the log list: the second argument is the
      result of \<^verbatim>\<open>JSON.parse(event.data)\<close>, \<open>Inl\<close> when it throws. An exception inside the
      \<^verbatim>\<open>try\<close> block leaves the list as it is.\<close>
  "onmessage logs parsed =
     (case parsed of
        Inl _ \<Rightarrow> logs
      | Inr entry \<Rightarrow>
          (case property entry ''job_id'' of
             Inl _ \<Rightarrow> logs
           | Inr v \<Rightarrow> if truthy v then js_slice_from (logs @ [entry]) (- 500) else logs))"

definition appended :: "js_error + json \<Rightarrow> json list" where
  \<comment> \<open>The entry a stream message contributes to the list: the parsed message when its
      \<^verbatim>\<open>job_id\<close> is truthy, nothing otherwise.\<close>
  "appended parsed =
     (case parsed of
        Inl _ \<Rightarrow> []
      | Inr entry \<Rightarrow> (case property entry ''job_id'' of Inr v \<Rightarrow> if truthy v then [entry] else [] | Inl _ \<Rightarrow> []))"

definition has_field :: "json \<Rightarrow> string \<Rightarrow> bool" where
  \<comment> \<open>The value is an object with a property of this name.\<close>
  "has_field v k = (case v of JObj kvs \<Rightarrow> map_of kvs k \<noteq> None | _ \<Rightarrow> False)"

definition sample_log :: json where
  "sample_log = JObj [(''id'', JNum 1), (''job_id'', JNum 7), (''level'', JStr ''info''), (''message'', JStr ''page 1 fetched'')]"

definition keepalive :: json where
  "keepalive = JObj [(''type'', JStr ''keepalive'')]"

subsection \<open>The request builder (RequestBuilder.jsx)\<close>

text \<open>
  Library functions the component calls are parameters of the model: \<^verbatim>\<open>btoa\<close>; the URL
  class (\<open>URL_toString u ps\<close> is \<^verbatim>\<open>new URL(u)\<close> followed by \<^verbatim>\<open>searchParams.set\<close> for each
  pair of \<open>ps\<close> and \<^verbatim>\<open>toString()\<close>, \<open>None\<close> when the constructor throws);
  \<^verbatim>\<open>new URLSearchParams(data).toString()\<close> and \<^verbatim>\<open>JSON.stringify(data)\<close> on the entries of
  \<open>data\<close>; \<^verbatim>\<open>parseInt\<close> (\<open>None\<close> is \<^verbatim>\<open>NaN\<close>); \<^verbatim>\<open>new Date(s).toISOString()\<close> (\<open>None\<close>
  when it throws a RangeError).
\<close>

record lib =
  btoa :: "string \<Rightarrow> string"
  URL_toString :: "string \<Rightarrow> (string \<times> string) list \<Rightarrow> string option"
  URLSearchParams_toString :: "(string \<times> string) list \<Rightarrow> string"
  JSON_stringify :: "(string \<times> string) list \<Rightarrow> string"
  parseInt :: "string \<Rightarrow> int option"
  toISOString :: "string \<Rightarrow> string option"

record auth_config =
  bearerToken :: "string option"
  basicUsername :: "string option"
  basicPassword :: "string option"
  apiKeyName :: "string option"
  apiKeyValue :: "string option"
  apiKeyLocation :: "string option"

text \<open>
  The state of the component, one field for each \<^verbatim>\<open>useState\<close> variable the functions
  below read (\<open>http_method\<close> is the variable \<^verbatim>\<open>method\<close>). The interval, page and date
  fields hold the text of their inputs; \<open>validationResult\<close> holds the \<^verbatim>\<open>is_valid\<close> flag of
  the validation result, \<open>None\<close> when there is no result.
\<close>

record builder =
  http_method :: string
  url :: string
  params :: "kv list"
  headers :: "kv list"
  authType :: string
  authConfig :: auth_config
  bodyType :: string
  jsonBody :: string
  formData :: "kv list"
  tableName :: string
  maxPages :: string
  startInterval :: string
  endInterval :: string
  randomizeInterval :: bool
  enableDateRange :: bool
  startDate :: string
  endDate :: string
  validationResult :: "bool option"

definition enabled_rows :: "kv list \<Rightarrow> kv list" where
  \<comment> \<open>\<^verbatim>\<open>list.filter(h => h.enabled && h.key)\<close>\<close>
  "enabled_rows rows = filter (\<lambda>h. kv_enabled h \<and> kv_key h \<noteq> []) rows"

definition buildFullUrl :: "lib \<Rightarrow> builder \<Rightarrow> string" where
  \<comment> \<open>The \<^verbatim>\<open>catch\<close> branch returns the URL as typed.\<close>
  "buildFullUrl L st =
     (if url st = [] then []
      else
        (case URL_toString L
                (if startsWith (url st) ''http'' then url st else ''https://'' @ url st)
                (map (\<lambda>p. (kv_key p, kv_value p)) (enabled_rows (params st)))
         of Some s \<Rightarrow> s
          | None \<Rightarrow> url st))"

definition buildHeaders :: "lib \<Rightarrow> builder \<Rightarrow> (string \<times> string option) list" where
  \<comment> \<open>The object \<^verbatim>\<open>hdrs\<close>: its properties in insertion order; a value \<open>None\<close> is
      \<^verbatim>\<open>undefined\<close>.\<close>
  "buildHeaders L st =
     (let hdrs = foldl (\<lambda>h r. js_assign h (kv_key r) (Some (kv_value r))) [] (enabled_rows (headers st));
          a = authConfig st;
          hdrs =
            (if authType st = ''bearer'' \<and> truthy_str (bearerToken a)
             then js_assign hdrs ''Authorization'' (Some (''Bearer '' @ interp (bearerToken a)))
             else if authType st = ''basic'' \<and> truthy_str (basicUsername a)
             then js_assign hdrs ''Authorization''
                    (Some (''Basic '' @ btoa L (interp (basicUsername a) @ '':'' @ interp (basicPassword a))))
             else if authType st = ''apikey'' \<and> apiKeyLocation a = Some ''header''
             then js_assign hdrs (interp (apiKeyName a)) (apiKeyValue a)
             else hdrs)
      in if bodyType st = ''json'' then js_assign hdrs ''Content-Type'' (Some ''application/json'')
         else if bodyType st = ''form'' then js_assign hdrs ''Content-Type'' (Some ''multipart/form-data'')
         else if bodyType st = ''urlencoded''
         then js_assign hdrs ''Content-Type'' (Some ''application/x-www-form-urlencoded'')
         else hdrs)"

definition buildBody :: "lib \<Rightarrow> builder \<Rightarrow> string option" where
  \<comment> \<open>\<open>None\<close> is \<^verbatim>\<open>null\<close>.\<close>
  "buildBody L st =
     (if bodyType st = ''json'' then Some (jsonBody st)
      else if bodyType st = ''form'' \<or> bodyType st = ''urlencoded''
      then (let data = foldl (\<lambda>d f. js_assign d (kv_key f) (kv_value f)) [] (enabled_rows (formData st))
            in if bodyType st = ''urlencoded''
               then Some (URLSearchParams_toString L (Object_entries data))
               else Some (JSON_stringify L (Object_entries data)))
      else None)"

definition continuation :: string where
  \<comment> \<open>The text \<^verbatim>\<open> \\\n  \<close> of the template literals: a space, a backslash, a line feed and
      two spaces.\<close>
  "continuation = [CHR '' '', backslash, newline, CHR '' '', CHR '' '']"

definition header_flag :: "string \<times> string option \<Rightarrow> string" where
  "header_flag p = continuation @ ''-H '' @ [dquote] @ fst p @ '': '' @ interp (snd p) @ [dquote]"

definition generateCurl :: "lib \<Rightarrow> builder \<Rightarrow> string" where
  "generateCurl L st =
     (let fullUrl = buildFullUrl L st;
          hdrs = buildHeaders L st;
          body = buildBody L st
      in ''curl '' @ [dquote] @ fullUrl @ [dquote]
         @ (if http_method st \<noteq> ''GET'' then continuation @ ''-X '' @ http_method st else [])
         @ concat (map header_flag (Object_entries hdrs))
         @ (if truthy_str body \<and> http_method st \<noteq> ''GET''
            then continuation @ ''-d '' @ [squote] @ interp body @ [squote] else []))"

subsection \<open>The jobs list (JobsList): the request saved from a job\<close>

text \<open>The fields of a job that \<^verbatim>\<open>extractRequestFromJob\<close> reads; \<open>None\<close> is a missing field.\<close>

record job_view =
  curl_command :: "string option"
  table_name :: "string option"

record saved_request =
  sr_name :: string
  sr_method :: string
  sr_url :: string
  sr_headers :: "kv list"
  sr_params :: "kv list"
  sr_authType :: string
  sr_bodyType :: string
  sr_jsonBody :: string
  sr_formData :: "kv list"

definition extractRequestFromJob :: "job_view option \<Rightarrow> saved_request option" where
  \<comment> \<open>\<open>None\<close> is \<^verbatim>\<open>null\<close>, for the job and for the result; the empty \<^verbatim>\<open>authConfig\<close> object
      of the result has no field and is left out.\<close>
  "extractRequestFromJob job =
     (case job of
        None \<Rightarrow> None
      | Some j \<Rightarrow>
          if \<not> truthy_str (curl_command j) then None
          else
            (let curlCommand = interp (curl_command j);
                 method = (case find_first match_method_at curlCommand of Some m \<Rightarrow> m | None \<Rightarrow> ''GET'');
                 url = (case find_first match_url_at curlCommand of Some u \<Rightarrow> u | None \<Rightarrow> []);
                 headers = concat (map header_of_match (matchAll_headers curlCommand))
             in Some \<lparr> sr_name = (if truthy_str (table_name j) then interp (table_name j) else ''Saved Request''),
                       sr_method = method,
                       sr_url = url,
                       sr_headers = headers,
                       sr_params = [],
                       sr_authType = ''none'',
                       sr_bodyType = ''none'',
                       sr_jsonBody = [],
                       sr_formData = [] \<rparr>))"

subsection \<open>Starting a crawl (RequestBuilder.jsx and the cURL input form)\<close>

text \<open>The configuration sent to the backend.\<close>

record crawl_config =
  cfg_curl_command :: string
  cfg_table_name :: string
  cfg_start_interval :: "int option"
  cfg_end_interval :: "int option"
  cfg_randomize_interval :: bool
  cfg_max_pages :: "int option"
  cfg_start_date :: "string option"
  cfg_end_date :: "string option"

datatype 'r outcome = NotSubmitted | Started 'r | Alerted string

definition date_field :: "lib \<Rightarrow> bool \<Rightarrow> string \<Rightarrow> string option option" where
  \<comment> \<open>\<^verbatim>\<open>enableDateRange && d ? new Date(d).toISOString() : null\<close>: the outer \<open>None\<close> is the
      RangeError of an invalid date, \<open>Some None\<close> is \<^verbatim>\<open>null\<close>.\<close>
  "date_field L enabled d =
     (if enabled \<and> d \<noteq> []
      then (case toISOString L d of None \<Rightarrow> None | Some t \<Rightarrow> Some (Some t))
      else Some None)"

definition build_config ::
  "lib \<Rightarrow> string \<Rightarrow> string \<Rightarrow> string \<Rightarrow> string \<Rightarrow> bool \<Rightarrow> string \<Rightarrow> bool \<Rightarrow> string \<Rightarrow> string
     \<Rightarrow> crawl_config option" where
  \<comment> \<open>The object literal \<^verbatim>\<open>config\<close>, which both forms build in the same way from their
      fields; \<open>None\<close> when building it throws. A \<^verbatim>\<open>NaN\<close> interval or page count is
      \<open>None\<close>, as it is \<^verbatim>\<open>null\<close> in the JSON sent.\<close>
  "build_config L curl tname startI endI randomize maxP dateRange startD endD =
     (case date_field L dateRange startD of
        None \<Rightarrow> None
      | Some sd \<Rightarrow>
          (case date_field L dateRange endD of
             None \<Rightarrow> None
           | Some ed \<Rightarrow>
               Some \<lparr> cfg_curl_command = curl,
                      cfg_table_name = js_trim tname,
                      cfg_start_interval = parseInt L startI,
                      cfg_end_interval = parseInt L endI,
                      cfg_randomize_interval = randomize,
                      cfg_max_pages = (if maxP \<noteq> [] then parseInt L maxP else None),
                      cfg_start_date = sd,
                      cfg_end_date = ed \<rparr>))"

definition handleStartCrawl ::
  "lib \<Rightarrow> (crawl_config \<Rightarrow> 'b \<Rightarrow> (string + 'r) \<times> 'b) \<Rightarrow> builder \<Rightarrow> 'b
     \<Rightarrow> 'r outcome \<times> builder \<times> 'b" where
  \<comment> \<open>\<^verbatim>\<open>handleStartCrawl\<close> of the request builder. \<open>startCrawl\<close> is the call to the
      backend (\<^verbatim>\<open>POST /crawler/start\<close>) as a function of the backend's state: \<open>Inl\<close> is
      a rejected request, whose detail the \<^verbatim>\<open>catch\<close> block shows in an alert. The
      \<^verbatim>\<open>starting\<close> flag, set and reset within the call, is left out.\<close>
  "handleStartCrawl L startCrawl st b =
     (if validationResult st \<noteq> Some True \<or> js_trim (tableName st) = [] then (NotSubmitted, st, b)
      else
        (case build_config L (generateCurl L st) (tableName st) (startInterval st) (endInterval st)
                (randomizeInterval st) (maxPages st) (enableDateRange st) (startDate st) (endDate st)
         of None \<Rightarrow> (Alerted ''Failed to start crawl: Invalid time value'', st, b)
          | Some config \<Rightarrow>
              (case startCrawl config b of
                 (Inl detail, b') \<Rightarrow> (Alerted (''Failed to start crawl: '' @ detail), st, b')
               | (Inr result, b') \<Rightarrow> (Started result, st\<lparr> validationResult := None \<rparr>, b'))))"

text \<open>The state of the cURL input form.\<close>

record curl_input =
  ci_curlCommand :: string
  ci_tableName :: string
  ci_validationResult :: "bool option"
  ci_startInterval :: string
  ci_endInterval :: string
  ci_randomizeInterval :: bool
  ci_maxPages :: string
  ci_enableDateRange :: bool
  ci_startDate :: string
  ci_endDate :: string

definition CurlInput_handleStartCrawl ::
  "lib \<Rightarrow> (crawl_config \<Rightarrow> 'b \<Rightarrow> (string + 'r) \<times> 'b) \<Rightarrow> curl_input \<Rightarrow> 'b
     \<Rightarrow> 'r outcome \<times> curl_input \<times> 'b" where
  \<comment> \<open>\<^verbatim>\<open>handleStartCrawl\<close> of the cURL input form, which sends the command as typed and
      resets the form after a success.\<close>
  "CurlInput_handleStartCrawl L startCrawl st b =
     (if ci_validationResult st \<noteq> Some True \<or> js_trim (ci_tableName st) = [] then (NotSubmitted, st, b)
      else
        (case build_config L (ci_curlCommand st) (ci_tableName st) (ci_startInterval st)
                (ci_endInterval st) (ci_randomizeInterval st) (ci_maxPages st)
                (ci_enableDateRange st) (ci_startDate st) (ci_endDate st)
         of None \<Rightarrow> (Alerted ''Failed to start crawl: Invalid time value'', st, b)
          | Some config \<Rightarrow>
              (case startCrawl config b of
                 (Inl detail, b') \<Rightarrow> (Alerted (''Failed to start crawl: '' @ detail), st, b')
               | (Inr result, b') \<Rightarrow>
                   (Started result,
                    st\<lparr> ci_curlCommand := [], ci_tableName := [], ci_validationResult := None,
                        ci_startDate := [], ci_endDate := [], ci_enableDateRange := False \<rparr>,
                    b'))))"

section \<open>The backend behind the dashboard\<close>

subsection \<open>Job creation\<close>

record job_row =
  row_id :: nat
  row_config :: crawl_config
  row_job :: job

record backend =
  backend_jobs :: "job_row list"
  backend_next_id :: nat

definition valid_config :: "crawl_config \<Rightarrow> bool" where
  \<comment> \<open>Modelled from the spec: the validation of a job configuration is not among the
      sources. ``\<open>start_interval: int \<ge> 1\<close>, \<open>end_interval: int \<ge> start_interval\<close>,
      \<open>max_pages: int > 0 | null\<close>''.\<close>
  "valid_config c =
     ((case cfg_start_interval c of
         None \<Rightarrow> False
       | Some s \<Rightarrow> 1 \<le> s \<and> (case cfg_end_interval c of None \<Rightarrow> False | Some e \<Rightarrow> s \<le> e))
      \<and> (case cfg_max_pages c of None \<Rightarrow> True | Some m \<Rightarrow> 0 < m))"

definition start_crawl ::
  "(string \<Rightarrow> 'q option) \<Rightarrow> crawl_config \<Rightarrow> backend \<Rightarrow> (string + job_row) \<times> backend" where
  \<comment> \<open>Modelled from the spec: the endpoint that creates a job is not among the sources.
      A configuration that is not valid is rejected before a Job is created; a request
      description the parser fails on is a ParseError, surfaced synchronously with no
      Job created; otherwise a Job is created pending. The parser is a parameter.\<close>
  "start_crawl parse c b =
     (if \<not> valid_config c then (Inl ''invalid job configuration'', b)
      else
        (case parse (cfg_curl_command c) of
           None \<Rightarrow> (Inl ''ParseError'', b)
         | Some _ \<Rightarrow>
             (let row = \<lparr> row_id = backend_next_id b, row_config = c,
                          row_job = new_job\<lparr> max_pages := map_option nat (cfg_max_pages c) \<rparr> \<rparr>
              in (Inr row,
                  b\<lparr> backend_jobs := backend_jobs b @ [row],
                     backend_next_id := backend_next_id b + 1 \<rparr>))))"

subsection \<open>Pagination detection\<close>

datatype pagination_type = PageBased | OffsetBased | CursorBased | NoPagination

definition lower_char :: "char \<Rightarrow> char" where
  "lower_char c = (if 65 \<le> code_unit c \<and> code_unit c \<le> 90 then char_of (code_unit c + 32) else c)"

definition lower :: "string \<Rightarrow> string" where
  "lower s = map lower_char s"

definition query_names :: "string \<Rightarrow> string list" where
  \<comment> \<open>Modelled from the spec: the detector is not among the sources. The parameters the
      request carries are the names of the query parameters of its URL: the text after
      the first \<open>?\<close> of the URL without its fragment, split at \<open>&\<close>, each name ending at
      its \<open>=\<close>.\<close>
  "query_names u =
     filter (\<lambda>n. n \<noteq> [])
       (map (takeWhile (\<lambda>c. c \<noteq> CHR ''=''))
          (js_split (CHR ''&'')
             (drop 1 (dropWhile (\<lambda>c. c \<noteq> CHR ''?'') (takeWhile (\<lambda>c. c \<noteq> CHR ''#'') u)))))"

definition field_names :: "json \<Rightarrow> string list" where
  \<comment> \<open>Modelled from the spec: the detector is not among the sources. The fields the
      response contains are the properties of the response object.\<close>
  "field_names v = (case v of JObj kvs \<Rightarrow> map fst kvs | _ \<Rightarrow> [])"

definition has_name_ci :: "string list \<Rightarrow> string list \<Rightarrow> bool" where
  \<comment> \<open>Modelled from the spec: the detector is not among the sources. One of the names
      occurs among the fields, compared case-insensitively.\<close>
  "has_name_ci names fs = list_ex (\<lambda>f. lower f \<in> set (map lower names)) fs"

definition has_next_link :: "json \<Rightarrow> bool" where
  \<comment> \<open>Modelled from the spec: the detector is not among the sources. The nested next-link
      field is \<^verbatim>\<open>links.next\<close>, as the README names it.\<close>
  "has_next_link v =
     (case v of
        JObj kvs \<Rightarrow> (case map_of kvs ''links'' of Some l \<Rightarrow> has_field l ''next'' | None \<Rightarrow> False)
      | _ \<Rightarrow> False)"

definition cursor_indicator :: "string \<Rightarrow> json \<Rightarrow> bool" where
  \<comment> \<open>Modelled from the spec: the detector is not among the sources. ``Response contains a
      continuation-token field (checked case-insensitive names: \<open>next_cursor\<close>,
      \<open>nextToken\<close>, \<open>continuation\<close>) or a nested next-link field, OR the request already
      carries a cursor-style parameter (\<open>cursor\<close>, \<open>after\<close>, \<open>next_token\<close>,
      \<open>continuation\<close>)''.\<close>
  "cursor_indicator u resp =
     (has_name_ci [''next_cursor'', ''nextToken'', ''continuation''] (field_names resp)
      \<or> has_next_link resp
      \<or> list_ex (\<lambda>n. n \<in> set [''cursor'', ''after'', ''next_token'', ''continuation'']) (query_names u))"

definition offset_indicator :: "string \<Rightarrow> json \<Rightarrow> bool" where
  \<comment> \<open>Modelled from the spec: the detector is not among the sources. ``Request/response
      carries \<open>offset\<close>/\<open>skip\<close>/\<open>start\<close> paired with \<open>limit\<close>/\<open>take\<close>''.\<close>
  "offset_indicator u resp =
     (list_ex (\<lambda>n. n \<in> set [''offset'', ''skip'', ''start'']) (query_names u @ field_names resp)
      \<and> list_ex (\<lambda>n. n \<in> set [''limit'', ''take'']) (query_names u @ field_names resp))"

definition page_indicator :: "string \<Rightarrow> bool" where
  \<comment> \<open>Modelled from the spec: the detector is not among the sources. ``Request carries
      \<open>page\<close>/\<open>p\<close>/\<open>pageNumber\<close>/\<open>page_number\<close>''.\<close>
  "page_indicator u =
     list_ex (\<lambda>n. n \<in> set [''page'', ''p'', ''pageNumber'', ''page_number'']) (query_names u)"

definition detect :: "bool \<Rightarrow> string \<Rightarrow> json \<Rightarrow> pagination_type" where
  \<comment> \<open>Modelled from the spec: the detector is not among the sources. ``Fixed precedence,
      first match wins'': cursor first, none last. The spec lists offset before page and
      also says that page wins over offset when both are present; the first argument
      chooses between the two readings (\<open>True\<close>: page is checked before offset). The
      other arguments are the URL of the sample request and the sample response.\<close>
  "detect page_first u resp =
     (if cursor_indicator u resp then CursorBased
      else if page_first
      then (if page_indicator u then PageBased
            else if offset_indicator u resp then OffsetBased else NoPagination)
      else (if offset_indicator u resp then OffsetBased
            else if page_indicator u then PageBased else NoPagination))"

section \<open>Predicates and sample inputs of the properties\<close>

subsection \<open>Predicates\<close>

definition has_method_flag :: "string \<Rightarrow> bool" where
  \<comment> \<open>The command has an explicit method flag: \<open>-X\<close>, whitespace and a word character,
      which is where \<^verbatim>\<open>/-X\s+(\w+)/\<close> matches.\<close>
  "has_method_flag cmd =
     (\<exists>pre ws c post. cmd = pre @ ''-X'' @ ws @ c # post \<and> ws \<noteq> [] \<and> list_all is_space ws \<and> is_word c)"

definition has_body_flag :: "string \<Rightarrow> bool" where
  \<comment> \<open>The command has a body flag: \<open>-d\<close>, whitespace and a quoted text.\<close>
  "has_body_flag cmd =
     (\<exists>pre ws q body post. cmd = pre @ ''-d'' @ ws @ q # body @ q # post \<and> ws \<noteq> []
        \<and> list_all is_space ws \<and> (q = squote \<or> q = dquote))"

definition clean_name :: "string \<Rightarrow> bool" where
  \<comment> \<open>A header name that survives the parse: not empty, without double quote or colon,
      without whitespace at either end.\<close>
  "clean_name k = (k \<noteq> [] \<and> dquote \<notin> set k \<and> CHR '':'' \<notin> set k \<and> js_trim k = k)"

definition clean_value :: "string \<Rightarrow> bool" where
  \<comment> \<open>A header value that survives the parse: without double quote, without whitespace at
      either end.\<close>
  "clean_value v = (dquote \<notin> set v \<and> js_trim v = v)"

definition header_line :: "string \<times> string option \<Rightarrow> string" where
  \<comment> \<open>The text \<^verbatim>\<open>${key}: ${value}\<close> of a header entry.\<close>
  "header_line p = fst p @ '': '' @ interp (snd p)"

definition method_part :: "builder \<Rightarrow> string" where
  \<comment> \<open>The method flag \<^verbatim>\<open>generateCurl\<close> emits.\<close>
  "method_part st = (if http_method st \<noteq> ''GET'' then continuation @ ''-X '' @ http_method st else [])"

definition body_part :: "lib \<Rightarrow> builder \<Rightarrow> string" where
  \<comment> \<open>The body flag \<^verbatim>\<open>generateCurl\<close> emits.\<close>
  "body_part L st =
     (if truthy_str (buildBody L st) \<and> http_method st \<noteq> ''GET''
      then continuation @ ''-d '' @ [squote] @ interp (buildBody L st) @ [squote] else [])"

subsection \<open>Sample inputs\<close>

definition sample_lib :: lib where
  \<comment> \<open>Stand-ins for the library functions, for evaluating the components on concrete
      inputs: \<^verbatim>\<open>parseInt\<close> on strings of decimal digits, a URL serialiser that returns an
      absolute URL in canonical form as it is, and simple encoders.\<close>
  "sample_lib =
     \<lparr> btoa = (\<lambda>s. s),
       URL_toString = (\<lambda>u ps. Some u),
       URLSearchParams_toString = (\<lambda>ps. js_join (CHR ''&'') (map (\<lambda>p. fst p @ ''='' @ snd p) ps)),
       JSON_stringify = (\<lambda>ps. ''{}''),
       parseInt = (\<lambda>s. if s \<noteq> [] \<and> list_all is_digit s then Some (int_of_digits s) else None),
       toISOString = (\<lambda>s. Some s) \<rparr>"

definition empty_row :: kv where
  "empty_row = \<lparr> kv_key = [], kv_value = [], kv_enabled = True \<rparr>"

definition initial_builder :: builder where
  \<comment> \<open>The state of the request builder when it is mounted (the \<^verbatim>\<open>useState\<close> initial
      values).\<close>
  "initial_builder =
     \<lparr> http_method = ''GET'',
       url = [],
       params = [empty_row],
       headers = [\<lparr> kv_key = ''Accept'', kv_value = ''application/json'', kv_enabled = True \<rparr>, empty_row],
       authType = ''none'',
       authConfig =
         \<lparr> bearerToken = Some [], basicUsername = Some [], basicPassword = Some [],
           apiKeyName = Some [], apiKeyValue = Some [], apiKeyLocation = Some ''header'' \<rparr>,
       bodyType = ''none'',
       jsonBody = [CHR ''{'', newline, CHR '' '', CHR '' '', newline, CHR ''}''],
       formData = [empty_row],
       tableName = [],
       maxPages = [],
       startInterval = ''5'',
       endInterval = ''15'',
       randomizeInterval = True,
       enableDateRange = False,
       startDate = [],
       endDate = [],
       validationResult = None \<rparr>"

definition inverted_builder :: builder where
  "inverted_builder =
     initial_builder\<lparr> url := ''http://localhost:3001/api/users?page=1'', tableName := ''users'',
       startInterval := ''20'', endInterval := ''5'', validationResult := Some True \<rparr>"

definition inverted_input :: curl_input where
  "inverted_input =
     \<lparr> ci_curlCommand = ''curl \"http://localhost:3001/api/users?page=1\"'',
       ci_tableName = ''users'', ci_validationResult = Some True,
       ci_startInterval = ''20'', ci_endInterval = ''5'', ci_randomizeInterval = True,
       ci_maxPages = [], ci_enableDateRange = False, ci_startDate = [], ci_endDate = [] \<rparr>"

definition empty_backend :: backend where
  "empty_backend = \<lparr> backend_jobs = [], backend_next_id = 1 \<rparr>"

definition duplicate_headers :: builder where
  "duplicate_headers =
     initial_builder\<lparr> headers :=
       [\<lparr> kv_key = ''Accept'', kv_value = ''application/json'', kv_enabled = True \<rparr>,
        \<lparr> kv_key = ''Accept'', kv_value = ''text/plain'', kv_enabled = True \<rparr>,
        \<lparr> kv_key = ''accept'', kv_value = ''text/html'', kv_enabled = True \<rparr>,
        empty_row] \<rparr>"

definition note_builder :: builder where
  "note_builder =
     initial_builder\<lparr> url := ''http://localhost:3001/api/users'',
       headers := [\<lparr> kv_key = ''X-Note'', kv_value = ''use -X POST'', kv_enabled = True \<rparr>, empty_row] \<rparr>"

definition repeated_builder :: builder where
  "repeated_builder =
     initial_builder\<lparr> url := ''http://localhost:3001/api/users'',
       headers := [\<lparr> kv_key = ''Accept'', kv_value = ''application/json'', kv_enabled = True \<rparr>,
                   \<lparr> kv_key = ''Accept'', kv_value = ''text/plain'', kv_enabled = True \<rparr>,
                   empty_row] \<rparr>"

definition accept_builder :: builder where
  "accept_builder = initial_builder\<lparr> url := ''http://localhost:3001/api/users?page=1'' \<rparr>"

definition auth_builder :: builder where
  "auth_builder =
     initial_builder\<lparr> http_method := ''POST'', url := ''http://localhost:3001/api/auth/data'',
       headers := [\<lparr> kv_key = ''Authorization'', kv_value = ''Bearer test-token-123'', kv_enabled = True \<rparr>,
                   empty_row],
       bodyType := ''json'', jsonBody := ''{\"filter\": \"active\"}'' \<rparr>"

definition body_without_method :: string where
  "body_without_method = ''curl \"http://localhost:3001/api/auth/data\" -d '' @ [squote] @ ''{}'' @ [squote]"

definition typed_command :: string where
  "typed_command = ''curl \"http://localhost:3001/api/users?page=1\" -H \"Accept: application/json\" -d '' @ [squote] @ ''a=1'' @ [squote]"

definition sample_page_url :: string where
  "sample_page_url = ''http://localhost:3001/api/comments?page=1&limit=20''"

definition sample_cursor_response :: json where
  "sample_cursor_response = JObj [(''data'', JArr []), (''next_cursor'', JNum 20), (''has_more'', JBool True)]"

section \<open>Properties of the mock server\<close>

lemma or_default_Some: "v \<noteq> 0 \<Longrightarrow> or_default (Some v) d = v"
  by (simp add: or_default_def)

lemma or_default_cursor: "0 \<le> c \<Longrightarrow> or_default (Some c) 0 = c"
  by (simp add: or_default_def)

text \<open>
  Claim C1. For every request to the comments source with cursor \<open>c \<ge> 0\<close> and limit
  \<open>n \<ge> 1\<close>, \<open>has_more\<close> is false if and only if \<open>next_cursor\<close> is null, and \<open>next_cursor\<close>
  is null exactly when \<open>c + n \<ge> 300\<close>, the end of the dataset; otherwise it is the next
  position \<open>c + n\<close>. So the cursor rule signals termination exactly at the end of the
  dataset.
\<close>

theorem comments_next_cursor_null_iff:
  assumes "0 \<le> c" and "1 \<le> n"
  shows "(has_more (comments_handler e (Some c) (Some n)) = False
            \<longleftrightarrow> next_cursor (comments_handler e (Some c) (Some n)) = None)
       \<and> (next_cursor (comments_handler e (Some c) (Some n)) = None \<longleftrightarrow> c + n \<ge> 300)
       \<and> (c + n < 300 \<longrightarrow> next_cursor (comments_handler e (Some c) (Some n)) = Some (c + n))
       \<and> (cursor_terminates (next_cursor (comments_handler e (Some c) (Some n))) \<longleftrightarrow> c + n \<ge> 300)"
proof -
  have c: "or_default (Some c) 0 = c"
    using assms(1) by (rule or_default_cursor)
  have n: "or_default (Some n) 20 = n"
    using assms(2) by (simp add: or_default_Some)
  show ?thesis
    by (simp add: comments_handler_def c n Let_def cursor_terminates_def)
qed

theorem comments_next_cursor_null_iff_witness:
  "next_cursor (comments_handler sample_env (Some 280) (Some 20)) = None
   \<and> has_more (comments_handler sample_env (Some 280) (Some 20)) = False
   \<and> cursor_terminates (next_cursor (comments_handler sample_env (Some 280) (Some 20)))
   \<and> next_cursor (comments_handler sample_env (Some 260) (Some 20)) = Some 280"
proof -
  have h: "(0::int) \<le> 280" "(1::int) \<le> 20" "(300::int) \<le> 280 + 20"
    by simp_all
  have k: "(0::int) \<le> 260" "(1::int) \<le> 20" "(260::int) + 20 < 300"
    by simp_all
  from comments_next_cursor_null_iff [OF h(1,2), of sample_env] h(3)
  have a: "next_cursor (comments_handler sample_env (Some 280) (Some 20)) = None
     \<and> has_more (comments_handler sample_env (Some 280) (Some 20)) = False
     \<and> cursor_terminates (next_cursor (comments_handler sample_env (Some 280) (Some 20)))"
    by (simp add: cursor_terminates_def)
  from comments_next_cursor_null_iff [OF k(1,2), of sample_env] k(3)
  have "next_cursor (comments_handler sample_env (Some 260) (Some 20)) = Some (260 + 20)"
    by simp
  then have b: "next_cursor (comments_handler sample_env (Some 260) (Some 20)) = Some 280"
    by simp
  from a b show ?thesis
    by blast
qed

lemma length_USERS [simp]: "length (USERS e) = 150"
  by (simp add: USERS_def generateUsers_def)

lemma length_POSTS [simp]: "length (POSTS e) = 500"
  by (simp add: POSTS_def generatePosts_def)

lemma js_slice_window:
  assumes "0 \<le> s" and "0 \<le> n"
  shows "js_slice xs s (s + n) = take (nat n) (drop (nat s) xs)"
proof (cases "nat s \<le> length xs")
  case True
  then show ?thesis using assms
    by (auto simp: js_slice_def rel_index_def Let_def min_def nat_add_distrib)
next
  case False
  then show ?thesis using assms
    by (auto simp: js_slice_def rel_index_def Let_def min_def)
qed

lemma length_window:
  assumes "0 \<le> s" and "0 \<le> n"
  shows "int (length (take (nat n) (drop (nat s) xs))) = max 0 (min n (int (length xs) - s))"
  using assms by (auto simp: min_def max_def)

lemma Math_ceil_div_int: "b \<noteq> 0 \<Longrightarrow> Math_ceil_div a (Finite b) = Finite (- ((- a) div b))"
  unfolding Math_ceil_div_def
  by (simp add: ceiling_divide_eq_div)

lemma neg_div_neg:
  fixes a n :: int
  assumes "0 < n"
  shows "- ((- a) div n) = (a + n - 1) div n"
proof -
  define q where "q = (- a) div n"
  define r where "r = (- a) mod n"
  have e: "- a = n * q + r"
    by (simp add: q_def r_def)
  have r: "0 \<le> r" "r < n"
    using assms by (simp_all add: r_def)
  have "a + n - 1 = n * (- q) + (n - 1 - r)"
    using e by (simp add: algebra_simps)
  moreover have "0 \<le> n - 1 - r" "n - 1 - r < n"
    using r by simp_all
  ultimately have "(a + n - 1) div n = - q"
    by (rule int_div_pos_eq)
  then show ?thesis
    by (simp add: q_def)
qed

lemma users_handler_fields:
  assumes "1 \<le> p" and "1 \<le> n"
  shows "users_data (users_handler e (Finite p) (Finite n)) = take (nat n) (drop (nat ((p - 1) * n)) (USERS e))"
    and "totalPages (users_pagination (users_handler e (Finite p) (Finite n))) = Math_ceil_div 150 (Finite n)"
proof -
  have p: "num_or (Finite p) (Finite 1) = Finite p" and n: "num_or (Finite n) (Finite 10) = Finite n"
    using assms by (simp_all add: num_or_def)
  have s: "0 \<le> (p - 1) * n"
    using assms by simp
  have "js_slice_num (USERS e) (Finite ((p - 1) * n)) (Finite ((p - 1) * n + n))
          = js_slice (USERS e) ((p - 1) * n) ((p - 1) * n + n)"
    by (simp add: js_slice_num_def js_slice_def num_rel_index_def)
  then show "users_data (users_handler e (Finite p) (Finite n)) = take (nat n) (drop (nat ((p - 1) * n)) (USERS e))"
    using assms s by (simp add: users_handler_def p n Let_def num_sub_def num_neg_def js_slice_window)
  show "totalPages (users_pagination (users_handler e (Finite p) (Finite n))) = Math_ceil_div 150 (Finite n)"
    by (simp add: users_handler_def p n Let_def)
qed

text \<open>
  Beyond the finite numbers the endpoint answers as follows: a per_page that parses to
  \<^verbatim>\<open>Infinity\<close> gives \<^verbatim>\<open>0 * Infinity = NaN\<close> as the start of the first page, an empty
  \<open>data\<close> on every page, and \<open>totalPages\<close> zero.
\<close>

lemma users_infinite_per_page:
  "users_data (users_handler e (Finite 1) Infinity) = []"
  "1 < p \<Longrightarrow> users_data (users_handler e (Finite p) Infinity) = []"
  "totalPages (users_pagination (users_handler e (Finite p) Infinity)) = Finite 0"
  by (simp_all add: users_handler_def Let_def num_or_def num_sub_def num_neg_def num_sgn_def inf_of_sign_def
      js_slice_num_def num_rel_index_def Math_ceil_div_def)

text \<open>
  Claim C3, as stated, fails where a page reaches the end of the dataset: page 16 with
  per_page 10 starts at record 150 and \<open>data\<close> is empty, and page 8 with per_page 20
  starts at record 140 and \<open>data\<close> holds 10 records, not 20.
\<close>

theorem users_last_pages_short:
  "users_data (users_handler sample_env (Finite 16) (Finite 10)) = []
   \<and> int (length (users_data (users_handler sample_env (Finite 16) (Finite 10)))) \<noteq> 10
   \<and> int (length (users_data (users_handler sample_env (Finite 8) (Finite 20)))) = 10
   \<and> int (length (users_data (users_handler sample_env (Finite 8) (Finite 20)))) \<noteq> 20"
proof -
  have a: "users_data (users_handler sample_env (Finite 16) (Finite 10)) = []"
    using users_handler_fields(1) [of 16 10 sample_env] by simp
  have b: "int (length (users_data (users_handler sample_env (Finite 8) (Finite 20)))) = 10"
    using users_handler_fields(1) [of 8 20 sample_env] by simp
  show ?thesis
    using a b by simp
qed

text \<open>
  Claim C3, amended. For the users source over 150 items, for every page \<open>p \<ge> 1\<close> and
  per_page \<open>n \<ge> 1\<close> (finite numbers), \<open>pagination.totalPages\<close> is \<open>ceil (150 / n)\<close> (15 when
  per_page is 10), and \<open>data\<close> is the slice of at most \<open>n\<close> records of the dataset starting
  at record \<open>(p - 1) * n\<close>, cut at the end of the dataset: it holds
  \<open>max 0 (min n (150 - (p - 1) * n))\<close> records, which is \<open>n\<close> records exactly when
  \<open>p * n \<le> 150\<close>.
\<close>

theorem users_page_slice:
  assumes "1 \<le> p" and "1 \<le> n"
  shows "totalPages (users_pagination (users_handler e (Finite p) (Finite n))) = Finite \<lceil>150 / real_of_int n\<rceil>
       \<and> totalPages (users_pagination (users_handler e (Finite p) (Finite n))) = Finite ((150 + n - 1) div n)
       \<and> totalPages (users_pagination (users_handler e (Finite p) (Finite 10))) = Finite 15
       \<and> users_data (users_handler e (Finite p) (Finite n))
           = take (nat n) (drop (nat ((p - 1) * n)) (USERS e))
       \<and> int (length (users_data (users_handler e (Finite p) (Finite n))))
           = max 0 (min n (150 - (p - 1) * n))
       \<and> (int (length (users_data (users_handler e (Finite p) (Finite n)))) = n \<longleftrightarrow> p * n \<le> 150)"
proof -
  have s: "0 \<le> (p - 1) * n"
    using assms by simp
  have n0: "n \<noteq> 0"
    using assms(2) by simp
  have t: "totalPages (users_pagination (users_handler e (Finite p) (Finite n))) = Math_ceil_div 150 (Finite n)"
    using assms by (rule users_handler_fields)
  have c1: "totalPages (users_pagination (users_handler e (Finite p) (Finite n))) = Finite \<lceil>150 / real_of_int n\<rceil>"
    using n0 by (simp add: t Math_ceil_div_def)
  have c2: "totalPages (users_pagination (users_handler e (Finite p) (Finite n))) = Finite ((150 + n - 1) div n)"
    using assms(2) neg_div_neg [of n 150] by (simp only: t Math_ceil_div_int [OF n0])
  have "totalPages (users_pagination (users_handler e (Finite p) (Finite 10))) = Math_ceil_div 150 (Finite 10)"
    using assms(1) by (rule users_handler_fields) simp
  then have c3: "totalPages (users_pagination (users_handler e (Finite p) (Finite 10))) = Finite 15"
    by (simp add: Math_ceil_div_int)
  have c4: "users_data (users_handler e (Finite p) (Finite n)) = take (nat n) (drop (nat ((p - 1) * n)) (USERS e))"
    using assms by (rule users_handler_fields)
  have c5: "int (length (users_data (users_handler e (Finite p) (Finite n)))) = max 0 (min n (150 - (p - 1) * n))"
    using s assms(2) length_window [of "(p - 1) * n" n "USERS e"] by (simp only: c4 length_USERS)
  have "max 0 (min n (150 - (p - 1) * n)) = n \<longleftrightarrow> p * n \<le> 150"
    using assms(2) by (auto simp: min_def max_def algebra_simps)
  then have c6: "int (length (users_data (users_handler e (Finite p) (Finite n)))) = n \<longleftrightarrow> p * n \<le> 150"
    by (simp only: c5)
  show ?thesis
    by (intro conjI c1 c2 c3 c4 c5 c6)
qed

theorem users_page_slice_witness:
  "totalPages (users_pagination (users_handler sample_env (Finite 15) (Finite 10))) = Finite 15
   \<and> int (length (users_data (users_handler sample_env (Finite 15) (Finite 10)))) = 10
   \<and> int (length (users_data (users_handler sample_env (Finite 8) (Finite 20)))) = 10
   \<and> totalPages (users_pagination (users_handler sample_env (Finite 8) (Finite 20))) = Finite 8"
proof -
  have a: "totalPages (users_pagination (users_handler sample_env (Finite 15) (Finite 10))) = Finite ((150 + 10 - 1) div 10)"
    and b: "int (length (users_data (users_handler sample_env (Finite 15) (Finite 10)))) = max 0 (min 10 (150 - (15 - 1) * 10))"
    using users_page_slice [of 15 10 sample_env] by simp_all
  have c: "totalPages (users_pagination (users_handler sample_env (Finite 8) (Finite 20))) = Finite ((150 + 20 - 1) div 20)"
    and d: "int (length (users_data (users_handler sample_env (Finite 8) (Finite 20)))) = max 0 (min 20 (150 - (8 - 1) * 20))"
    using users_page_slice [of 8 20 sample_env] by simp_all
  show ?thesis
    using a b c d by simp
qed

lemma posts_handler_fields:
  assumes "0 \<le> off" and "1 \<le> n"
  shows "posts_items (posts_handler e (Some off) (Some n)) = take (nat n) (drop (nat off) (POSTS e))"
    and "meta_has_more (posts_meta (posts_handler e (Some off) (Some n))) = (off + n < 500)"
    and "int (length (posts_items (posts_handler e (Some off) (Some n)))) = max 0 (min n (500 - off))"
proof -
  have o: "or_default (Some off) 0 = off" and n: "or_default (Some n) 25 = n"
    using assms by (simp_all add: or_default_def)
  show i: "posts_items (posts_handler e (Some off) (Some n)) = take (nat n) (drop (nat off) (POSTS e))"
    using assms by (simp add: posts_handler_def o n Let_def js_slice_window)
  show "meta_has_more (posts_meta (posts_handler e (Some off) (Some n))) = (off + n < 500)"
    by (simp add: posts_handler_def o n Let_def)
  show "int (length (posts_items (posts_handler e (Some off) (Some n)))) = max 0 (min n (500 - off))"
    using assms length_window [of off n "POSTS e"] by (simp only: i length_POSTS)
qed

text \<open>
  Claim C4, as stated, fails: at offset 475 and limit 25 the page is full (25 records, not
  fewer than the limit) and \<open>meta.has_more\<close> is false, so ``fewer records than the limit''
  and ``no more'' do not coincide.
\<close>

theorem posts_short_page_not_iff_no_more:
  "\<not> (int (length (posts_items (posts_handler sample_env (Some 475) (Some 25)))) < 25
        \<longleftrightarrow> meta_has_more (posts_meta (posts_handler sample_env (Some 475) (Some 25))) = False)"
proof -
  have "int (length (posts_items (posts_handler sample_env (Some 475) (Some 25)))) = 25"
    by (subst posts_handler_fields) simp_all
  moreover have "meta_has_more (posts_meta (posts_handler sample_env (Some 475) (Some 25))) = False"
    by (subst posts_handler_fields) simp_all
  ultimately show ?thesis
    by simp
qed

text \<open>
  Claim C4, amended. For the posts source over 500 items, for every offset \<open>o \<ge> 0\<close> and
  limit \<open>n \<ge> 1\<close> the response returns the records in positions \<open>[o, o + n)\<close> (cut at the
  end of the dataset), \<open>meta.has_more\<close> is false if and only if \<open>o + n \<ge> 500\<close>, and the page
  holds fewer records than \<open>n\<close> if and only if \<open>o + n > 500\<close>. So a short page implies
  \<open>has_more = false\<close> (the converse fails when \<open>o + n = 500\<close>), the offset rule signals
  termination on it, and the job completes at the next check of the loop.
\<close>

theorem posts_offset_window:
  assumes "0 \<le> off" and "1 \<le> n"
  shows "posts_items (posts_handler e (Some off) (Some n)) = take (nat n) (drop (nat off) (POSTS e))
       \<and> (meta_has_more (posts_meta (posts_handler e (Some off) (Some n))) = False \<longleftrightarrow> off + n \<ge> 500)
       \<and> (int (length (posts_items (posts_handler e (Some off) (Some n)))) < n \<longleftrightarrow> off + n > 500)
       \<and> (int (length (posts_items (posts_handler e (Some off) (Some n)))) < n
            \<longrightarrow> meta_has_more (posts_meta (posts_handler e (Some off) (Some n))) = False)
       \<and> (int (length (posts_items (posts_handler e (Some off) (Some n)))) < n
            \<longrightarrow> offset_terminates (length (posts_items (posts_handler e (Some off) (Some n)))) n False
              \<and> job_status
                    (loop_check now
                       (offset_terminates (length (posts_items (posts_handler e (Some off) (Some n)))) n
                          (\<not> meta_has_more (posts_meta (posts_handler e (Some off) (Some n)))))
                       (on_success (length (posts_items (posts_handler e (Some off) (Some n)))) d
                          running_job))
                  = Completed)"
proof -
  note f = posts_handler_fields [OF assms, of e]
  have c1: "posts_items (posts_handler e (Some off) (Some n)) = take (nat n) (drop (nat off) (POSTS e))"
    by (rule f)
  have c2: "(meta_has_more (posts_meta (posts_handler e (Some off) (Some n))) = False) = (off + n \<ge> 500)"
    by (simp only: f) auto
  have c3: "(int (length (posts_items (posts_handler e (Some off) (Some n)))) < n) = (off + n > 500)"
    using assms by (simp only: f) (auto simp: max_def min_def)
  have c4: "int (length (posts_items (posts_handler e (Some off) (Some n)))) < n
            \<longrightarrow> meta_has_more (posts_meta (posts_handler e (Some off) (Some n))) = False"
    using c2 c3 by simp
  have c: "job_status (loop_check now (offset_terminates k n m) (on_success k d running_job)) = Completed"
    if "int k < n" for k m
    using that by (simp add: loop_check_def on_success_def running_job_def new_job_def offset_terminates_def)
  have c5: "int (length (posts_items (posts_handler e (Some off) (Some n)))) < n
            \<longrightarrow> offset_terminates (length (posts_items (posts_handler e (Some off) (Some n)))) n False
              \<and> job_status
                    (loop_check now
                       (offset_terminates (length (posts_items (posts_handler e (Some off) (Some n)))) n
                          (\<not> meta_has_more (posts_meta (posts_handler e (Some off) (Some n)))))
                       (on_success (length (posts_items (posts_handler e (Some off) (Some n)))) d
                          running_job))
                  = Completed"
    using c by (simp add: offset_terminates_def)
  show ?thesis
    by (intro conjI c1 c2 c3 c4 c5)
qed

theorem posts_offset_window_witness:
  "int (length (posts_items (posts_handler sample_env (Some 490) (Some 25)))) = 10
   \<and> meta_has_more (posts_meta (posts_handler sample_env (Some 490) (Some 25))) = False
   \<and> offset_terminates (length (posts_items (posts_handler sample_env (Some 490) (Some 25)))) 25 False
   \<and> job_status
         (loop_check 0
            (offset_terminates (length (posts_items (posts_handler sample_env (Some 490) (Some 25)))) 25
               (\<not> meta_has_more (posts_meta (posts_handler sample_env (Some 490) (Some 25)))))
            (on_success (length (posts_items (posts_handler sample_env (Some 490) (Some 25)))) 5
               running_job))
       = Completed"
proof -
  have l: "int (length (posts_items (posts_handler sample_env (Some 490) (Some 25)))) = 10"
    by (subst posts_handler_fields) simp_all
  then have lt: "int (length (posts_items (posts_handler sample_env (Some 490) (Some 25)))) < 25"
    by simp
  have h: "(0::int) \<le> 490" "(1::int) \<le> 25"
    by simp_all
  from posts_offset_window [OF h, of sample_env 0 5] lt l show ?thesis
    by blast
qed

section \<open>Properties of the retry loop on the flaky source\<close>

lemma flaky_fetch_fail:
  "Suc c mod 3 \<noteq> 0 \<Longrightarrow> flaky_fetch e q c = (Suc c, 500, 0)"
  by (simp add: flaky_fetch_def flaky_handler_def Let_def)

lemma flaky_fetch_ok:
  "Suc c mod 3 = 0 \<Longrightarrow> \<exists>n. flaky_fetch e q c = (Suc c, 200, n)"
  by (simp add: flaky_fetch_def flaky_handler_def Let_def)

lemma crawl_flaky_run:
  assumes "c mod 3 = 0" and "job_status j = Running" and "retry_count j = 0"
  shows "\<exists>n. crawl_page (flaky_fetch e q) d c j =
     (c + 3, j\<lparr> retry_count := 0, current_page := current_page j + 1, total_records := total_records j + n,
        job_logs := job_logs j @ [\<lparr> entry_level = Warning, entry_message = ''HTTP 500'' \<rparr>,
            \<lparr> entry_level = Warning, entry_message = ''HTTP 500'' \<rparr>,
            \<lparr> entry_level = Success, entry_message = ''page fetched'' \<rparr>],
        job_pauses := job_pauses j @ [Backoff 2, Backoff 4, Interval d]\<rparr>)"
proof -
  have s: "string_of_nat 500 = ''500''" by code_simp
  have m1: "Suc c mod 3 \<noteq> 0" and m2: "Suc (Suc c) mod 3 \<noteq> 0"
    and m3: "Suc (Suc (Suc c)) mod 3 = 0"
    using assms(1) by presburger+
  obtain n where n: "flaky_fetch e q (Suc (Suc c)) = (Suc (Suc (Suc c)), 200, n)"
    using flaky_fetch_ok [OF m3] by blast
  let ?j1 = "on_failure ''HTTP 500'' j"
  let ?j2 = "on_failure ''HTTP 500'' ?j1"
  have j1: "job_status ?j1 = Running" "retry_count ?j1 = 1"
    using assms by (simp_all add: on_failure_def Let_def)
  have j2: "job_status ?j2 = Running" "retry_count ?j2 = 2"
    using j1 by (simp_all add: on_failure_def Let_def)
  have "crawl_page (flaky_fetch e q) d c j = crawl_page (flaky_fetch e q) d (Suc c) ?j1"
    using assms(2) j1 by (subst crawl_page.simps) (simp add: flaky_fetch_fail [OF m1] is_2xx_def s)
  also have "\<dots> = crawl_page (flaky_fetch e q) d (Suc (Suc c)) ?j2"
    using j1 j2 by (subst crawl_page.simps) (simp add: flaky_fetch_fail [OF m2] is_2xx_def s)
  also have "\<dots> = (Suc (Suc (Suc c)), on_success n d ?j2)"
    using j2 by (subst crawl_page.simps) (simp add: n is_2xx_def)
  finally show ?thesis
    using assms by (auto simp: on_success_def on_failure_def Let_def intro!: exI [of _ n])
qed

text \<open>
  Claim C2. The flaky source answers 500 on every call whose global call count is not a
  multiple of 3 and 200 otherwise. Crawling one page of it from a call count that is a
  multiple of 3, with a running job whose \<open>retry_count\<close> is 0, fails on attempts 1 and 2
  and succeeds on attempt 3: exactly two warnings are logged, the back-off delays are 2
  then 4 seconds, and \<open>retry_count\<close> is 0 after the success.
\<close>

theorem flaky_two_warnings_then_success:
  assumes "c mod 3 = 0" and "job_status j = Running" and "retry_count j = 0"
  shows "(\<forall>k q'. flaky_status (snd (flaky_handler e k q')) = (if (k + 1) mod 3 \<noteq> 0 then 500 else 200)
              \<and> fst (flaky_handler e k q') = k + 1)
       \<and> fst (crawl_page (flaky_fetch e q) d c j) = c + 3
       \<and> job_status (snd (crawl_page (flaky_fetch e q) d c j)) = Running
       \<and> retry_count (snd (crawl_page (flaky_fetch e q) d c j)) = 0
       \<and> current_page (snd (crawl_page (flaky_fetch e q) d c j)) = current_page j + 1
       \<and> filter (\<lambda>l. entry_level l = Warning) (job_logs (snd (crawl_page (flaky_fetch e q) d c j)))
           = filter (\<lambda>l. entry_level l = Warning) (job_logs j)
             @ [\<lparr> entry_level = Warning, entry_message = ''HTTP 500'' \<rparr>,
                \<lparr> entry_level = Warning, entry_message = ''HTTP 500'' \<rparr>]
       \<and> job_pauses (snd (crawl_page (flaky_fetch e q) d c j))
           = job_pauses j @ [Backoff 2, Backoff 4, Interval d]"
proof -
  obtain n where r: "crawl_page (flaky_fetch e q) d c j =
     (c + 3, j\<lparr> retry_count := 0, current_page := current_page j + 1, total_records := total_records j + n,
        job_logs := job_logs j @ [\<lparr> entry_level = Warning, entry_message = ''HTTP 500'' \<rparr>,
            \<lparr> entry_level = Warning, entry_message = ''HTTP 500'' \<rparr>,
            \<lparr> entry_level = Success, entry_message = ''page fetched'' \<rparr>],
        job_pauses := job_pauses j @ [Backoff 2, Backoff 4, Interval d]\<rparr>)"
    using crawl_flaky_run [OF assms] by blast
  have c1: "\<forall>k q'. flaky_status (snd (flaky_handler e k q')) = (if (k + 1) mod 3 \<noteq> 0 then 500 else 200)
              \<and> fst (flaky_handler e k q') = k + 1"
    by (simp add: flaky_handler_def Let_def)
  show ?thesis
    using assms(2) by (intro conjI c1) (simp_all add: r)
qed

theorem flaky_two_warnings_then_success_witness:
  "retry_count (snd (crawl_page (flaky_fetch sample_env (Some 1)) 5 0 running_job)) = 0
   \<and> job_pauses (snd (crawl_page (flaky_fetch sample_env (Some 1)) 5 0 running_job))
        = [Backoff 2, Backoff 4, Interval 5]
   \<and> length (filter (\<lambda>l. entry_level l = Warning)
         (job_logs (snd (crawl_page (flaky_fetch sample_env (Some 1)) 5 0 running_job)))) = 2"
proof -
  have h: "(0::nat) mod 3 = 0" "job_status running_job = Running" "retry_count running_job = 0"
    by (simp_all add: running_job_def new_job_def)
  note t = flaky_two_warnings_then_success [OF h, of sample_env "Some 1" 5]
  have p: "job_pauses running_job = []" and l: "job_logs running_job = []"
    by (simp_all add: running_job_def new_job_def)
  show ?thesis
    using t by (simp add: p l)
qed

section \<open>Properties of the live log viewer\<close>

lemma js_slice_from_500: "js_slice_from xs (- 500) = drop (length xs - 500) xs"
  by (auto simp: js_slice_from_def rel_index_def max_def nat_diff_distrib')

lemma onmessage_appended: "onmessage logs m = drop (length (logs @ appended m) - 500) (logs @ appended m)" if "length logs \<le> 500"
  using that by (auto simp: onmessage_def appended_def js_slice_from_500 split: sum.splits)

lemma drop_last_window:
  "drop (length (drop (length xs - n) xs @ ys) - n) (drop (length xs - n) xs @ ys)
     = drop (length (xs @ ys) - n) (xs @ ys)"
  by (cases "length xs \<le> n") (auto simp: add.commute)

lemma run_window:
  assumes "length logs \<le> 500"
  shows "foldl onmessage logs ms
       = drop (length (logs @ concat (map appended ms)) - 500) (logs @ concat (map appended ms))"
proof (induction ms rule: rev_induct)
  case Nil
  then show ?case using assms by simp
next
  case (snoc m ms)
  let ?w = "logs @ concat (map appended ms)"
  have l: "length (foldl onmessage logs ms) \<le> 500"
    by (simp only: snoc.IH) simp
  have "foldl onmessage logs (ms @ [m]) = onmessage (foldl onmessage logs ms) m"
    by simp
  also have "\<dots> = drop (length (foldl onmessage logs ms @ appended m) - 500) (foldl onmessage logs ms @ appended m)"
    using l by (rule onmessage_appended)
  also have "\<dots> = drop (length (?w @ appended m) - 500) (?w @ appended m)"
    by (simp only: snoc.IH drop_last_window)
  finally show ?case
    by simp
qed

lemma no_field_unchanged: "\<not> has_field entry ''job_id'' \<Longrightarrow> onmessage logs (Inr entry) = logs"
  by (auto simp: onmessage_def has_field_def property_def truthy_def split: json.splits)


text \<open>
  Claim C10. While the live log viewer receives stream messages, starting from a list of
  at most 500 entries (the list is empty at first and the initial load asks for 200), its
  log list holds at most 500 entries: the last 500 of the initial entries followed by the
  parsed messages with a truthy \<open>job_id\<close>, in arrival order. A message that is not valid
  JSON, or that lacks a \<open>job_id\<close> field (such as a keepalive), leaves the list unchanged.
\<close>

theorem live_log_window:
  assumes "length logs \<le> 500"
  shows "length (foldl onmessage logs ms) \<le> 500
       \<and> foldl onmessage logs ms
           = drop (length (logs @ concat (map appended ms)) - 500) (logs @ concat (map appended ms))
       \<and> onmessage (foldl onmessage logs ms) (Inl SyntaxError) = foldl onmessage logs ms
       \<and> (\<forall>entry. \<not> has_field entry ''job_id''
             \<longrightarrow> appended (Inr entry) = []
               \<and> onmessage (foldl onmessage logs ms) (Inr entry) = foldl onmessage logs ms)"
proof -
  have c2: "foldl onmessage logs ms
           = drop (length (logs @ concat (map appended ms)) - 500) (logs @ concat (map appended ms))"
    using assms by (rule run_window)
  have c1: "length (foldl onmessage logs ms) \<le> 500"
    by (simp only: c2) simp
  have c3: "onmessage (foldl onmessage logs ms) (Inl SyntaxError) = foldl onmessage logs ms"
    by (simp add: onmessage_def)
  have c4: "\<forall>entry. \<not> has_field entry ''job_id''
             \<longrightarrow> appended (Inr entry) = []
               \<and> onmessage (foldl onmessage logs ms) (Inr entry) = foldl onmessage logs ms"
    by (auto simp: no_field_unchanged appended_def has_field_def property_def truthy_def split: json.splits)
  show ?thesis
    by (intro conjI c1 c2 c3 c4)
qed

theorem live_log_window_witness:
  "foldl onmessage [] [Inr sample_log, Inl SyntaxError, Inr keepalive] = [sample_log]
   \<and> onmessage [sample_log] (Inr keepalive) = [sample_log]"
proof -
  have h: "length ([] :: json list) \<le> 500"
    by simp
  have k: "\<not> has_field keepalive ''job_id''"
    by (simp add: has_field_def keepalive_def)
  have a: "concat (map appended [Inr sample_log, Inl SyntaxError, Inr keepalive]) = [sample_log]"
    by (simp add: appended_def sample_log_def keepalive_def property_def truthy_def)
  from live_log_window [OF h, of "[Inr sample_log, Inl SyntaxError, Inr keepalive]"]
  have "foldl onmessage [] [Inr sample_log, Inl SyntaxError, Inr keepalive]
          = drop (length ([] @ concat (map appended [Inr sample_log, Inl SyntaxError, Inr keepalive])) - 500)
              ([] @ concat (map appended [Inr sample_log, Inl SyntaxError, Inr keepalive]))"
    and "onmessage (foldl onmessage [] [Inr sample_log, Inl SyntaxError, Inr keepalive]) (Inr keepalive)
          = foldl onmessage [] [Inr sample_log, Inl SyntaxError, Inr keepalive]"
    using k by blast+
  then show ?thesis
    by (simp only: a) simp
qed

section \<open>Properties of pagination detection\<close>

lemma has_field_names: "has_field v k \<Longrightarrow> k \<in> set (field_names v)"
  by (cases v) (auto simp: has_field_def field_names_def map_of_eq_None_iff)

lemma has_name_ci_member: "k \<in> set names \<Longrightarrow> k \<in> set fs \<Longrightarrow> has_name_ci names fs"
  by (auto simp: has_name_ci_def list_ex_iff)

text \<open>
  Claim C8. \<open>detect\<close> applied to a sample whose response contains a \<open>next_cursor\<close> field
  and whose request carries a \<open>page\<close> parameter classifies the pagination as cursor, never
  page, although the page indicator is present: cursor is checked first, whichever of
  page and offset is checked next.
\<close>

theorem detect_cursor_beats_page:
  assumes "has_field resp ''next_cursor''" and "''page'' \<in> set (query_names u)"
  shows "page_indicator u \<and> detect pf u resp = CursorBased \<and> detect pf u resp \<noteq> PageBased"
proof -
  have "''next_cursor'' \<in> set (field_names resp)"
    using assms(1) by (rule has_field_names)
  then have "has_name_ci [''next_cursor'', ''nextToken'', ''continuation''] (field_names resp)"
    by (intro has_name_ci_member [of "''next_cursor''"]) simp_all
  then have c: "cursor_indicator u resp"
    by (simp add: cursor_indicator_def)
  have p: "page_indicator u"
    using assms(2) by (auto simp: page_indicator_def list_ex_iff)
  from c p show ?thesis
    by (simp add: detect_def)
qed

theorem detect_cursor_beats_page_witness:
  "detect True sample_page_url sample_cursor_response = CursorBased
   \<and> detect False sample_page_url sample_cursor_response = CursorBased
   \<and> page_indicator sample_page_url"
proof -
  have f: "has_field sample_cursor_response ''next_cursor''"
    by (simp add: has_field_def sample_cursor_response_def)
  have q: "query_names sample_page_url = [''page'', ''limit'']"
    by (simp add: query_names_def sample_page_url_def)
  then have p: "''page'' \<in> set (query_names sample_page_url)"
    by simp
  from detect_cursor_beats_page [OF f p, of True] detect_cursor_beats_page [OF f p, of False]
  show ?thesis
    by blast
qed

section \<open>Properties of job creation\<close>

lemma start_crawl_rejects:
  assumes "cfg_start_interval c = Some s" and "cfg_end_interval c = Some e" and "e < s"
  shows "start_crawl parse c b = (Inl ''invalid job configuration'', b)"
  using assms by (simp add: start_crawl_def valid_config_def)

lemma build_config_intervals:
  "build_config L curl tname startI endI randomize maxP dateRange startD endD = Some c
   \<Longrightarrow> cfg_start_interval c = parseInt L startI \<and> cfg_end_interval c = parseInt L endI"
  by (auto simp: build_config_def split: option.splits)

text \<open>
  Claim C5. For every job configuration submitted, from the request builder, from the cURL
  input form or directly, if \<open>start_interval > end_interval\<close> the configuration is rejected
  before a Job is created: the backend's jobs are unchanged and the dashboard gets no job
  back.
\<close>

theorem inverted_intervals_rejected:
  "(parseInt L (startInterval st) = Some s \<and> parseInt L (endInterval st) = Some e \<and> e < s
      \<longrightarrow> snd (snd (handleStartCrawl L (start_crawl parse) st b)) = b
          \<and> (\<forall>r. fst (handleStartCrawl L (start_crawl parse) st b) \<noteq> Started r))
   \<and> (parseInt L (ci_startInterval ci) = Some s \<and> parseInt L (ci_endInterval ci) = Some e \<and> e < s
      \<longrightarrow> snd (snd (CurlInput_handleStartCrawl L (start_crawl parse) ci b)) = b
          \<and> (\<forall>r. fst (CurlInput_handleStartCrawl L (start_crawl parse) ci b) \<noteq> Started r))
   \<and> (cfg_start_interval c = Some s \<and> cfg_end_interval c = Some e \<and> e < s
      \<longrightarrow> snd (start_crawl parse c b) = b \<and> (\<forall>r. fst (start_crawl parse c b) \<noteq> Inr r))"
proof (intro conjI impI; (elim conjE)?)
  assume a: "parseInt L (startInterval st) = Some s" "parseInt L (endInterval st) = Some e" "e < s"
  show "snd (snd (handleStartCrawl L (start_crawl parse) st b)) = b"
    using a by (auto simp: handleStartCrawl_def start_crawl_rejects split: option.splits dest!: build_config_intervals)
  show "\<forall>r. fst (handleStartCrawl L (start_crawl parse) st b) \<noteq> Started r"
    using a by (auto simp: handleStartCrawl_def start_crawl_rejects split: option.splits dest!: build_config_intervals)
next
  assume a: "parseInt L (ci_startInterval ci) = Some s" "parseInt L (ci_endInterval ci) = Some e" "e < s"
  show "snd (snd (CurlInput_handleStartCrawl L (start_crawl parse) ci b)) = b"
    using a by (auto simp: CurlInput_handleStartCrawl_def start_crawl_rejects split: option.splits dest!: build_config_intervals)
  show "\<forall>r. fst (CurlInput_handleStartCrawl L (start_crawl parse) ci b) \<noteq> Started r"
    using a by (auto simp: CurlInput_handleStartCrawl_def start_crawl_rejects split: option.splits dest!: build_config_intervals)
next
  assume a: "cfg_start_interval c = Some s" "cfg_end_interval c = Some e" "e < s"
  show "snd (start_crawl parse c b) = b" "\<forall>r. fst (start_crawl parse c b) \<noteq> Inr r"
    using a by (simp_all add: start_crawl_rejects)
qed


lemma parseInt_sample: "parseInt sample_lib ''20'' = Some 20" "parseInt sample_lib ''5'' = Some 5"
  by (simp_all add: sample_lib_def is_digit_def code_unit_def int_of_digits_def)

theorem inverted_intervals_rejected_witness:
  "snd (snd (handleStartCrawl sample_lib (start_crawl Some) inverted_builder empty_backend)) = empty_backend
   \<and> (\<forall>r. fst (handleStartCrawl sample_lib (start_crawl Some) inverted_builder empty_backend) \<noteq> Started r)
   \<and> snd (snd (CurlInput_handleStartCrawl sample_lib (start_crawl Some) inverted_input empty_backend)) = empty_backend
   \<and> (\<forall>r. fst (CurlInput_handleStartCrawl sample_lib (start_crawl Some) inverted_input empty_backend) \<noteq> Started r)"
proof -
  have a: "parseInt sample_lib (startInterval inverted_builder) = Some 20
         \<and> parseInt sample_lib (endInterval inverted_builder) = Some 5 \<and> (5::int) < 20"
    by (simp add: inverted_builder_def initial_builder_def parseInt_sample)
  have b: "parseInt sample_lib (ci_startInterval inverted_input) = Some 20
         \<and> parseInt sample_lib (ci_endInterval inverted_input) = Some 5 \<and> (5::int) < 20"
    by (simp add: inverted_input_def parseInt_sample)
  note t = inverted_intervals_rejected [of sample_lib inverted_builder 20 5 Some empty_backend inverted_input]
  from t a b show ?thesis
    by blast
qed

section \<open>Properties of the request builder's headers\<close>

lemma map_of_obj_set: "map_of (obj_set h k v) = (map_of h)(k \<mapsto> v)"
  by (induction h) (auto simp: fun_eq_iff)

lemma keys_obj_set: "set (map fst (obj_set h k v)) = insert k (set (map fst h))"
  by (induction h) auto

lemma distinct_obj_set: "distinct (map fst h) \<Longrightarrow> distinct (map fst (obj_set h k v))"
proof (induction h)
  case Nil
  then show ?case by simp
next
  case (Cons p ps)
  have "fst p \<notin> set (map fst (obj_set ps k v))" if "fst p \<noteq> k"
    using Cons.prems that by (simp only: keys_obj_set) auto
  with Cons show ?case
    by auto
qed

lemma distinct_js_assign: "distinct (map fst h) \<Longrightarrow> distinct (map fst (js_assign h k v))"
  by (simp add: js_assign_def distinct_obj_set)

lemma distinct_foldl_js_assign:
  "distinct (map fst h) \<Longrightarrow> distinct (map fst (foldl (\<lambda>h r. js_assign h (f r) (g r)) h rows))"
  by (induction rows arbitrary: h) (simp_all add: distinct_js_assign)

lemma foldl_js_assign:
  "foldl (\<lambda>h r. js_assign h (f r) (g r)) h rows
     = foldl (\<lambda>h r. obj_set h (f r) (g r)) h (filter (\<lambda>r. f r \<noteq> ''__proto__'') rows)"
  by (induction rows arbitrary: h) (simp_all add: js_assign_def)

lemma map_of_foldl_obj_set:
  "map_of (foldl (\<lambda>h r. obj_set h (f r) (g r)) h rows) = map_of (rev (map (\<lambda>r. (f r, g r)) rows) @ h)"
proof (induction rows arbitrary: h)
  case Nil
  then show ?case by simp
next
  case (Cons r rows)
  have "map_of (foldl (\<lambda>h r. obj_set h (f r) (g r)) h (r # rows))
          = map_of (rev (map (\<lambda>r. (f r, g r)) rows) @ obj_set h (f r) (g r))"
    by (simp add: Cons.IH)
  also have "\<dots> = map_of (rev (map (\<lambda>r. (f r, g r)) rows) @ (f r, g r) # h)"
    by (simp add: map_of_obj_set fun_eq_iff map_add_def split: option.splits)
  finally show ?case
    by simp
qed

lemma set_Object_entries: "set (Object_entries obj) = set obj"
  by (auto simp: Object_entries_def)

lemma distinct_Object_entries:
  assumes "distinct (map fst obj)"
  shows "distinct (map fst (Object_entries obj))"
proof -
  have d: "distinct obj" and i: "inj_on fst (set obj)"
    using assms by (simp_all add: distinct_map)
  have "distinct (Object_entries obj)"
    using d by (auto simp: Object_entries_def)
  moreover have "inj_on fst (set (Object_entries obj))"
    using i by (simp add: set_Object_entries)
  ultimately show ?thesis
    by (simp add: distinct_map)
qed

lemma map_of_Object_entries:
  assumes "distinct (map fst obj)"
  shows "map_of (Object_entries obj) = map_of obj"
  using assms distinct_Object_entries [OF assms] set_Object_entries [of obj]
  by (simp add: map_of_inject_set)

lemma distinct_buildHeaders: "distinct (map fst (buildHeaders L st))"
proof -
  have "distinct (map fst (foldl (\<lambda>h r. js_assign h (kv_key r) (Some (kv_value r))) [] rows))"
    for rows :: "kv list"
    by (rule distinct_foldl_js_assign) simp
  then show ?thesis
    by (auto simp: buildHeaders_def Let_def intro!: distinct_js_assign)
qed

lemma buildHeaders_plain:
  assumes "authType st = ''none''" and "bodyType st = ''none''"
  shows "buildHeaders L st
       = foldl (\<lambda>h r. obj_set h (kv_key r) (Some (kv_value r))) []
           (filter (\<lambda>r. kv_key r \<noteq> ''__proto__'') (enabled_rows (headers st)))"
  using assms by (simp add: buildHeaders_def Let_def foldl_js_assign)

lemma duplicate_headers_entries:
  "Object_entries (buildHeaders sample_lib duplicate_headers)
     = [(''Accept'', Some ''text/plain''), (''accept'', Some ''text/html'')]"
  by (simp add: duplicate_headers_def initial_builder_def empty_row_def buildHeaders_def js_assign_def enabled_rows_def
      Object_entries_def is_array_index_def is_digit_def code_unit_def Let_def)

text \<open>
  Claim C7, as stated, fails: when two enabled header rows carry the same name with
  different values, the built headers do not hold both entries (the later value replaces
  the earlier), and names that differ only in case are two entries.
\<close>

theorem duplicate_header_overwritten:
  "\<not> ((''Accept'', Some ''application/json'') \<in> set (Object_entries (buildHeaders sample_lib duplicate_headers))
       \<and> (''Accept'', Some ''text/plain'') \<in> set (Object_entries (buildHeaders sample_lib duplicate_headers)))"
  by (simp add: duplicate_headers_entries)

text \<open>
  Claim C7, amended. The headers of the built request form an ordered mapping whose keys
  compare exactly (case-sensitively) and are pairwise distinct; a repeated header name
  overwrites the value of the earlier entry. With no authentication and no body type,
  the value of a name is that of the last enabled row carrying it (a row named
  \<open>__proto__\<close> is not stored).
\<close>

theorem headers_last_value_wins:
  assumes "authType st = ''none''" and "bodyType st = ''none''"
  shows "distinct (map fst (Object_entries (buildHeaders L st)))
       \<and> map_of (Object_entries (buildHeaders L st)) k
           = map_of (rev (map (\<lambda>r. (kv_key r, Some (kv_value r)))
                            (filter (\<lambda>r. kv_key r \<noteq> ''__proto__'') (enabled_rows (headers st))))) k"
proof -
  have c1: "distinct (map fst (Object_entries (buildHeaders L st)))"
    by (intro distinct_Object_entries distinct_buildHeaders)
  have "map_of (Object_entries (buildHeaders L st)) = map_of (buildHeaders L st)"
    by (intro map_of_Object_entries distinct_buildHeaders)
  also have "\<dots> = map_of (rev (map (\<lambda>r. (kv_key r, Some (kv_value r)))
                            (filter (\<lambda>r. kv_key r \<noteq> ''__proto__'') (enabled_rows (headers st)))) @ [])"
    by (simp only: buildHeaders_plain [OF assms] map_of_foldl_obj_set)
  finally have c2: "map_of (Object_entries (buildHeaders L st)) k
           = map_of (rev (map (\<lambda>r. (kv_key r, Some (kv_value r)))
                            (filter (\<lambda>r. kv_key r \<noteq> ''__proto__'') (enabled_rows (headers st))))) k"
    by simp
  show ?thesis
    by (intro conjI c1 c2)
qed


theorem headers_last_value_wins_witness:
  "distinct (map fst (Object_entries (buildHeaders sample_lib duplicate_headers)))
   \<and> map_of (Object_entries (buildHeaders sample_lib duplicate_headers)) ''Accept'' = Some (Some ''text/plain'')
   \<and> map_of (Object_entries (buildHeaders sample_lib duplicate_headers)) ''accept'' = Some (Some ''text/html'')"
proof -
  have h: "authType duplicate_headers = ''none''" "bodyType duplicate_headers = ''none''"
    by (simp_all add: duplicate_headers_def initial_builder_def)
  have r: "rev (map (\<lambda>r. (kv_key r, Some (kv_value r)))
              (filter (\<lambda>r. kv_key r \<noteq> ''__proto__'') (enabled_rows (headers duplicate_headers))))
         = [(''accept'', Some ''text/html''), (''Accept'', Some ''text/plain''), (''Accept'', Some ''application/json'')]"
    by (simp add: duplicate_headers_def initial_builder_def empty_row_def enabled_rows_def)
  note t = headers_last_value_wins [OF h, of sample_lib]
  have a: "map_of (Object_entries (buildHeaders sample_lib duplicate_headers)) ''Accept'' = Some (Some ''text/plain'')"
    using t [of "''Accept''"] by (simp only: r) simp
  have b: "map_of (Object_entries (buildHeaders sample_lib duplicate_headers)) ''accept'' = Some (Some ''text/html'')"
    using t [of "''accept''"] by (simp only: r) simp
  from t [of "''Accept''"] a b show ?thesis
    by blast
qed


section \<open>Properties of the request saved from a job\<close>

lemma word_not_space: "is_word c \<Longrightarrow> \<not> is_space c"
  by (auto simp: is_word_def is_space_def is_digit_def code_unit_def)

lemma takeWhile_all: "list_all P ws \<Longrightarrow> \<not> P c \<Longrightarrow> takeWhile P (ws @ c # post) = ws"
  by (induction ws) auto

lemma dropWhile_all: "list_all P ws \<Longrightarrow> \<not> P c \<Longrightarrow> dropWhile P (ws @ c # post) = c # post"
  by (induction ws) auto

lemma match_method_at_flag:
  assumes "ws \<noteq> []" and "list_all is_space ws" and "is_word c"
  shows "match_method_at (''-X'' @ ws @ c # post) = Some (c # takeWhile is_word post)"
  using assms
  by (simp add: match_method_at_def startsWith_def Let_def takeWhile_all dropWhile_all word_not_space)

lemma startsWith_iff: "startsWith s p \<longleftrightarrow> (\<exists>r. s = p @ r)"
proof
  assume "startsWith s p"
  then have "s = p @ drop (length p) s"
    unfolding startsWith_def by (metis append_take_drop_id)
  then show "\<exists>r. s = p @ r" ..
next
  assume "\<exists>r. s = p @ r"
  then show "startsWith s p"
    unfolding startsWith_def by auto
qed

lemma match_method_at_SomeD:
  assumes "match_method_at s = Some w"
  shows "\<exists>ws c post. s = ''-X'' @ ws @ c # post \<and> ws \<noteq> [] \<and> list_all is_space ws \<and> is_word c"
proof -
  from assms have "startsWith s ''-X''"
    by (auto simp: match_method_at_def split: if_splits)
  then obtain r where s: "s = ''-X'' @ r"
    unfolding startsWith_iff by blast
  from assms have ws: "takeWhile is_space r \<noteq> []"
    and w: "takeWhile is_word (dropWhile is_space r) \<noteq> []"
    by (auto simp: match_method_at_def s Let_def split: if_splits)
  from w obtain c post where d: "dropWhile is_space r = c # post" and c: "is_word c"
    by (cases "dropWhile is_space r") (auto split: if_splits)
  have "r = takeWhile is_space r @ dropWhile is_space r"
    by simp
  then have "s = ''-X'' @ takeWhile is_space r @ c # post"
    by (simp only: s d)
  moreover have "list_all is_space (takeWhile is_space r)"
    by (simp add: list_all_iff) (meson set_takeWhileD)
  ultimately show ?thesis
    using ws c by blast
qed

lemma find_first_method_iff:
  "find_first match_method_at cmd \<noteq> None \<longleftrightarrow> has_method_flag cmd"
proof
  assume "find_first match_method_at cmd \<noteq> None"
  then show "has_method_flag cmd"
  proof (induction cmd)
    case Nil
    then show ?case
      by (simp add: match_method_at_def startsWith_def)
  next
    case (Cons x cmd)
    show ?case
    proof (cases "match_method_at (x # cmd)")
      case None
      with Cons.prems have "find_first match_method_at cmd \<noteq> None"
        by simp
      then have "has_method_flag cmd"
        by (rule Cons.IH)
      then obtain pre ws c post where "cmd = pre @ ''-X'' @ ws @ c # post" "ws \<noteq> []"
        "list_all is_space ws" "is_word c"
        unfolding has_method_flag_def by blast
      then have "x # cmd = (x # pre) @ ''-X'' @ ws @ c # post \<and> ws \<noteq> [] \<and> list_all is_space ws \<and> is_word c"
        by simp
      then show ?thesis
        unfolding has_method_flag_def by blast
    next
      case (Some w)
      from match_method_at_SomeD [OF Some]
      obtain ws c post where "x # cmd = [] @ ''-X'' @ ws @ c # post" "ws \<noteq> []" "list_all is_space ws" "is_word c"
        by auto
      then show ?thesis
        unfolding has_method_flag_def by blast
    qed
  qed
next
  assume "has_method_flag cmd"
  then obtain pre ws c post where cmd: "cmd = pre @ ''-X'' @ ws @ c # post" and ws: "ws \<noteq> []"
    "list_all is_space ws" and c: "is_word c"
    unfolding has_method_flag_def by blast
  have "find_first match_method_at (pre @ ''-X'' @ ws @ c # post) \<noteq> None"
  proof (induction pre)
    case Nil
    show ?case
      using match_method_at_flag [OF ws c, of post] by simp
  next
    case (Cons x pre)
    then show ?case
      by (cases "match_method_at (x # pre @ ''-X'' @ ws @ c # post)") simp_all
  qed
  then show "find_first match_method_at cmd \<noteq> None"
    unfolding cmd .
qed

lemma body_without_method_flags:
  "has_body_flag body_without_method" "\<not> has_method_flag body_without_method"
proof -
  have "body_without_method = ''curl \"http://localhost:3001/api/auth/data\" '' @ ''-d'' @ '' '' @ squote # ''{}'' @ squote # []"
    by (simp add: body_without_method_def)
  then show "has_body_flag body_without_method"
    unfolding has_body_flag_def by (intro exI conjI) (assumption, simp_all add: is_space_def)
  have "find_first match_method_at body_without_method = None"
    by (simp add: body_without_method_def match_method_at_def startsWith_def squote_def)
  then show "\<not> has_method_flag body_without_method"
    using find_first_method_iff [of body_without_method] by simp
qed

text \<open>
  Claim C6, as stated, fails on the parser of the jobs list: a command with a body flag and
  no method flag is parsed with method GET.
\<close>

theorem body_flag_does_not_imply_POST:
  "has_body_flag body_without_method \<and> \<not> has_method_flag body_without_method
   \<and> map_option sr_method (extractRequestFromJob (Some \<lparr> curl_command = Some body_without_method, table_name = None \<rparr>))
       = Some ''GET''
   \<and> map_option sr_method (extractRequestFromJob (Some \<lparr> curl_command = Some body_without_method, table_name = None \<rparr>))
       \<noteq> Some ''POST''"
proof -
  have "find_first match_method_at body_without_method = None"
    using body_without_method_flags(2) find_first_method_iff [of body_without_method] by simp
  then have g: "map_option sr_method (extractRequestFromJob (Some \<lparr> curl_command = Some body_without_method, table_name = None \<rparr>))
       = Some ''GET''"
    by (simp add: extractRequestFromJob_def truthy_str_def interp_def Let_def body_without_method_def)
  have p: "map_option sr_method (extractRequestFromJob (Some \<lparr> curl_command = Some body_without_method, table_name = None \<rparr>))
       \<noteq> Some ''POST''"
    by (simp only: g) simp
  show ?thesis
    by (intro conjI body_without_method_flags g p)
qed

text \<open>
  Claim C6, amended. For every raw request description with no explicit method flag,
  parsing it as the jobs list does yields a request whose method is GET, whether or not a
  body flag is present.
\<close>

theorem method_defaults_to_GET:
  assumes "cmd \<noteq> []" and "\<not> has_method_flag cmd"
  shows "map_option sr_method (extractRequestFromJob (Some \<lparr> curl_command = Some cmd, table_name = t \<rparr>))
           = Some ''GET''"
proof -
  have "find_first match_method_at cmd = None"
    using assms(2) find_first_method_iff [of cmd] by simp
  then show ?thesis
    using assms(1) by (simp add: extractRequestFromJob_def truthy_str_def interp_def Let_def)
qed

theorem method_defaults_to_GET_witness:
  "map_option sr_method (extractRequestFromJob (Some \<lparr> curl_command = Some typed_command, table_name = Some ''users'' \<rparr>))
     = Some ''GET''"
proof -
  have n: "typed_command \<noteq> []"
    by (simp add: typed_command_def)
  have "find_first match_method_at typed_command = None"
    by (simp add: typed_command_def match_method_at_def startsWith_def squote_def)
  then have f: "\<not> has_method_flag typed_command"
    using find_first_method_iff [of typed_command] by simp
  show ?thesis
    by (rule method_defaults_to_GET [OF n f])
qed

section \<open>Round trip between the request builder and the jobs list\<close>

subsection \<open>Header flags in a command\<close>

lemma match_header_at_flag:
  assumes "match_header_at s = Some x"
  shows "\<exists>c r. s = CHR ''-'' # CHR ''H'' # c # r \<and> is_space c"
proof -
  from assms have "startsWith s ''-H''" and t: "takeWhile is_space (drop 2 s) \<noteq> []"
    by (auto simp: match_header_at_def split: if_splits)
  then obtain r where s: "s = ''-H'' @ r"
    unfolding startsWith_iff by blast
  from t obtain c r' where "r = c # r'" "is_space c"
    by (cases r) (auto simp: s split: if_splits)
  with s show ?thesis
    by simp
qed

lemma matchAll_skip: "match_header_at (c # s) = None \<Longrightarrow> matchAll_headers (c # s) = matchAll_headers s"
  by (simp add: matchAll_headers.simps)

lemma matchAll_skip_char: "c \<noteq> CHR ''-'' \<Longrightarrow> matchAll_headers (c # s) = matchAll_headers s"
  by (rule matchAll_skip) (auto simp: match_header_at_def startsWith_def)

lemma matchAll_skip_dash: "d \<noteq> CHR ''H'' \<Longrightarrow> matchAll_headers (c # d # s) = matchAll_headers (d # s)"
  by (rule matchAll_skip) (auto simp: match_header_at_def startsWith_def)

lemma matchAll_skip_unspaced:
  assumes "list_all (\<lambda>c. \<not> is_space c) u" and "\<not> is_space q" and "q \<noteq> CHR ''H''"
  shows "matchAll_headers (u @ q # rest) = matchAll_headers (q # rest)"
  using assms(1)
proof (induction u)
  case Nil
  then show ?case by simp
next
  case (Cons c u)
  have "match_header_at (c # u @ q # rest) = None"
  proof (cases "match_header_at (c # u @ q # rest)")
    case None
    then show ?thesis .
  next
    case (Some x)
    then obtain sp r where e: "c # u @ q # rest = CHR ''-'' # CHR ''H'' # sp # r" and sp: "is_space sp"
      using match_header_at_flag by blast
    show ?thesis
    proof (cases u)
      case Nil
      with e assms(3) show ?thesis by simp
    next
      case u: (Cons h u')
      show ?thesis
      proof (cases u')
        case Nil
        with e u sp assms(2) show ?thesis by simp
      next
        case (Cons h' u'')
        with e u sp Cons.prems show ?thesis by simp
      qed
    qed
  qed
  then have "matchAll_headers ((c # u) @ q # rest) = matchAll_headers (u @ q # rest)"
    by (simp add: matchAll_skip)
  with Cons show ?case
    by simp
qed

lemma matchAll_skip_word:
  assumes "list_all is_word m"
  shows "matchAll_headers (m @ rest) = matchAll_headers rest"
  using assms
proof (induction m)
  case Nil
  then show ?case by simp
next
  case (Cons c m)
  then have "c \<noteq> CHR ''-''"
    by (auto simp: is_word_def is_digit_def code_unit_def)
  with Cons show ?case
    by (simp add: matchAll_skip_char)
qed

lemma takeWhile_until: "q \<notin> set u \<Longrightarrow> takeWhile (\<lambda>x. x \<noteq> q) (u @ q # rest) = u"
  by (induction u) auto

lemma dropWhile_until: "q \<notin> set u \<Longrightarrow> dropWhile (\<lambda>x. x \<noteq> q) (u @ q # rest) = q # rest"
  by (induction u) auto

lemma quoted_text: "q \<notin> set u \<Longrightarrow> u \<noteq> [] \<Longrightarrow> quoted q (q # u @ q # rest) = Some (u, rest)"
  by (simp add: quoted_def takeWhile_until dropWhile_until)

lemma not_space_dquote: "\<not> is_space dquote"
  by (simp add: is_space_def dquote_def)

lemma is_space_blank: "is_space CHR '' ''"
  by (simp add: is_space_def)

lemma matchAll_header_flag:
  assumes "dquote \<notin> set line" and "line \<noteq> []"
  shows "matchAll_headers (continuation @ ''-H '' @ [dquote] @ line @ [dquote] @ rest)
       = line # matchAll_headers rest"
proof -
  have "match_header_at (''-H '' @ [dquote] @ line @ [dquote] @ rest) = Some (line, rest)"
    using assms by (simp add: match_header_at_def startsWith_def not_space_dquote quoted_text is_space_blank)
  then have "matchAll_headers (''-H '' @ [dquote] @ line @ [dquote] @ rest) = line # matchAll_headers rest"
    by (simp add: matchAll_headers.simps)
  then show ?thesis
    by (simp add: continuation_def backslash_def newline_def matchAll_skip_char)
qed

lemma header_flag_line: "header_flag p = continuation @ ''-H '' @ [dquote] @ header_line p @ [dquote]"
  by (simp add: header_flag_def header_line_def)

lemma matchAll_flags:
  assumes "list_all (\<lambda>p. dquote \<notin> set (header_line p)) hs"
  shows "matchAll_headers (concat (map header_flag hs) @ rest) = map header_line hs @ matchAll_headers rest"
  using assms
proof (induction hs)
  case Nil
  then show ?case by simp
next
  case (Cons p hs)
  have "header_line p \<noteq> []"
    by (simp add: header_line_def)
  moreover have "dquote \<notin> set (header_line p)"
    using Cons.prems by simp
  ultimately have "matchAll_headers (continuation @ ''-H '' @ [dquote] @ header_line p @ [dquote]
            @ (concat (map header_flag hs) @ rest))
       = header_line p # matchAll_headers (concat (map header_flag hs) @ rest)"
    by (intro matchAll_header_flag)
  moreover have "concat (map header_flag (p # hs)) @ rest
       = continuation @ ''-H '' @ [dquote] @ header_line p @ [dquote] @ (concat (map header_flag hs) @ rest)"
    by (simp add: header_flag_line)
  ultimately have "matchAll_headers (concat (map header_flag (p # hs)) @ rest)
       = header_line p # matchAll_headers (concat (map header_flag hs) @ rest)"
    by (simp only:)
  also have "matchAll_headers (concat (map header_flag hs) @ rest) = map header_line hs @ matchAll_headers rest"
    using Cons.prems by (intro Cons.IH) simp
  finally show ?case
    by simp
qed

lemma matchAll_prefix:
  assumes "list_all (\<lambda>c. c \<noteq> dquote \<and> \<not> is_space c) u"
  shows "matchAll_headers (''curl '' @ [dquote] @ u @ [dquote] @ rest) = matchAll_headers rest"
proof -
  have "list_all (\<lambda>c. \<not> is_space c) u"
    using assms by (simp add: list_all_iff)
  then have "matchAll_headers (u @ dquote # rest) = matchAll_headers (dquote # rest)"
    by (rule matchAll_skip_unspaced) (rule not_space_dquote, simp add: dquote_def)
  then show ?thesis
    by (simp add: matchAll_skip_char dquote_def)
qed

lemma matchAll_method_flag:
  assumes "list_all is_word m"
  shows "matchAll_headers (continuation @ ''-X '' @ m @ rest) = matchAll_headers rest"
proof -
  have "matchAll_headers (CHR ''-'' # CHR ''X'' # CHR '' '' # m @ rest) = matchAll_headers (m @ rest)"
    by (simp add: matchAll_skip_dash matchAll_skip_char)
  then show ?thesis
    using assms by (simp add: continuation_def backslash_def newline_def matchAll_skip_char matchAll_skip_word)
qed

subsection \<open>A header line split back into name and value\<close>

lemma js_split_until: "sep \<notin> set k \<Longrightarrow> js_split sep (k @ sep # s) = k # js_split sep s"
  by (induction k) auto

lemma js_split_nonempty: "js_split sep s \<noteq> []"
  by (induction s) (auto split: list.splits)

lemma js_join_split: "js_join sep (js_split sep s) = s"
proof (induction s)
  case Nil
  then show ?case by simp
next
  case (Cons c s)
  obtain p ps where p: "js_split sep s = p # ps"
    using js_split_nonempty [of sep s] by (cases "js_split sep s") auto
  show ?case
  proof (cases "c = sep")
    case True
    with Cons p show ?thesis by simp
  next
    case False
    with Cons p show ?thesis by (cases ps) simp_all
  qed
qed

lemma js_trim_leading: "is_space c \<Longrightarrow> js_trim (c # s) = js_trim s"
  by (simp add: js_trim_def)

lemma header_of_match_line:
  assumes "clean_name k" and "js_trim v = v"
  shows "header_of_match (k @ '': '' @ v) = [\<lparr> kv_key = k, kv_value = v, kv_enabled = True \<rparr>]"
proof -
  have "js_split (CHR '':'') (k @ CHR '':'' # CHR '' '' # v) = k # js_split (CHR '':'') (CHR '' '' # v)"
    using assms(1) by (intro js_split_until) (simp add: clean_name_def)
  moreover have "js_trim (js_join (CHR '':'') (js_split (CHR '':'') (CHR '' '' # v))) = v"
    using assms(2) by (simp only: js_join_split) (simp add: js_trim_leading is_space_blank)
  ultimately show ?thesis
    using assms(1) by (simp add: header_of_match_def clean_name_def)
qed

subsection \<open>The URL and the method flag in a command\<close>

lemma find_url:
  assumes "u \<noteq> []" and "dquote \<notin> set u"
  shows "find_first match_url_at (''curl '' @ [dquote] @ u @ [dquote] @ rest) = Some u"
proof -
  have "quoted dquote (dquote # u @ dquote # rest) = Some (u, rest)"
    using assms by (intro quoted_text)
  then have "match_url_at (''curl '' @ [dquote] @ u @ [dquote] @ rest) = Some u"
    by (simp add: match_url_at_def startsWith_def is_space_blank not_space_dquote)
  then show ?thesis
    by simp
qed

lemma ff_skip: "match_method_at (c # s) = None \<Longrightarrow> find_first match_method_at (c # s) = find_first match_method_at s"
  by simp

lemma ff_skip_char: "c \<noteq> CHR ''-'' \<Longrightarrow> find_first match_method_at (c # s) = find_first match_method_at s"
  by (rule ff_skip) (auto simp: match_method_at_def startsWith_def)

lemma match_method_at_third:
  assumes "match_method_at s = Some w"
  shows "\<exists>c r. s = CHR ''-'' # CHR ''X'' # c # r \<and> is_space c"
proof -
  from match_method_at_SomeD [OF assms]
  obtain ws c post where s: "s = ''-X'' @ ws @ c # post" and ws: "ws \<noteq> []" "list_all is_space ws"
    by blast
  from ws obtain sp ws' where "ws = sp # ws'" "is_space sp"
    by (cases ws) auto
  with s show ?thesis
    by simp
qed

lemma ff_skip_unspaced:
  assumes "list_all (\<lambda>c. \<not> is_space c) u" and "\<not> is_space q" and "q \<noteq> CHR ''X''"
  shows "find_first match_method_at (u @ q # rest) = find_first match_method_at (q # rest)"
  using assms(1)
proof (induction u)
  case Nil
  then show ?case by simp
next
  case (Cons c u)
  have "match_method_at (c # u @ q # rest) = None"
  proof (cases "match_method_at (c # u @ q # rest)")
    case None
    then show ?thesis .
  next
    case (Some x)
    then obtain sp r where e: "c # u @ q # rest = CHR ''-'' # CHR ''X'' # sp # r" and sp: "is_space sp"
      using match_method_at_third by blast
    show ?thesis
    proof (cases u)
      case Nil
      with e assms(3) show ?thesis by simp
    next
      case u: (Cons h u')
      show ?thesis
      proof (cases u')
        case Nil
        with e u sp assms(2) show ?thesis by simp
      next
        case (Cons h' u'')
        with e u sp Cons.prems show ?thesis by simp
      qed
    qed
  qed
  then have "find_first match_method_at ((c # u) @ q # rest) = find_first match_method_at (u @ q # rest)"
    by simp
  with Cons show ?case
    by simp
qed

lemma ff_prefix:
  assumes "list_all (\<lambda>c. c \<noteq> dquote \<and> \<not> is_space c) u"
  shows "find_first match_method_at (''curl '' @ [dquote] @ u @ [dquote] @ rest) = find_first match_method_at rest"
proof -
  have "list_all (\<lambda>c. \<not> is_space c) u"
    using assms by (simp add: list_all_iff)
  then have "find_first match_method_at (u @ dquote # rest) = find_first match_method_at (dquote # rest)"
    by (rule ff_skip_unspaced) (rule not_space_dquote, simp add: dquote_def)
  then show ?thesis
    by (simp add: ff_skip_char dquote_def del: find_first.simps)
qed

lemma takeWhile_word_run:
  assumes "list_all is_word m" and "tl' = [] \<or> \<not> is_word (hd tl')"
  shows "takeWhile is_word (m @ tl') = m"
proof -
  have "takeWhile is_word tl' = []"
    using assms(2) by (cases tl') auto
  with assms(1) show ?thesis
    by (induction m) auto
qed

lemma ff_method_flag:
  assumes "m \<noteq> []" and "list_all is_word m" and "tl' = [] \<or> \<not> is_word (hd tl')"
  shows "find_first match_method_at (continuation @ ''-X '' @ m @ tl') = Some m"
proof -
  obtain c m' where m: "m = c # m'"
    using assms(1) by (cases m) auto
  have "match_method_at (''-X'' @ '' '' @ c # (m' @ tl')) = Some (c # takeWhile is_word (m' @ tl'))"
    using assms(2) by (intro match_method_at_flag) (simp_all add: m is_space_blank)
  moreover have "takeWhile is_word (m' @ tl') = m'"
    using assms(2,3) by (intro takeWhile_word_run) (simp_all add: m)
  ultimately have "match_method_at (''-X '' @ m @ tl') = Some m"
    by (simp add: m)
  then have "find_first match_method_at (''-X '' @ m @ tl') = Some m"
    by simp
  then show ?thesis
    by (simp add: continuation_def backslash_def newline_def ff_skip_char del: find_first.simps)
qed

subsection \<open>The generated command, part by part\<close>

lemma generateCurl_parts:
  "generateCurl L st
     = ''curl '' @ [dquote] @ buildFullUrl L st @ [dquote] @ method_part st
       @ concat (map header_flag (Object_entries (buildHeaders L st))) @ body_part L st"
  by (simp add: generateCurl_def method_part_def body_part_def Let_def)

lemma flags_tail_start:
  "concat (map header_flag hs) @ body_part L st = []
   \<or> \<not> is_word (hd (concat (map header_flag hs) @ body_part L st))"
proof (cases hs)
  case Nil
  then show ?thesis
    by (simp add: body_part_def continuation_def is_word_def is_digit_def code_unit_def)
next
  case (Cons p ps)
  then show ?thesis
    by (simp add: header_flag_def continuation_def is_word_def is_digit_def code_unit_def)
qed

lemma matchAll_method_part:
  assumes "list_all is_word (http_method st)"
  shows "matchAll_headers (method_part st @ rest) = matchAll_headers rest"
proof (cases "http_method st \<noteq> ''GET''")
  case True
  then have "method_part st @ rest = continuation @ ''-X '' @ http_method st @ rest"
    by (simp add: method_part_def)
  then show ?thesis
    using matchAll_method_flag [OF assms, of rest] by (simp only:)
next
  case False
  then show ?thesis
    by (simp add: method_part_def)
qed

lemma headers_of_lines:
  assumes "list_all (\<lambda>p. clean_name (fst p) \<and> clean_value (interp (snd p))) hs"
  shows "concat (map header_of_match (map header_line hs))
       = map (\<lambda>p. \<lparr> kv_key = fst p, kv_value = interp (snd p), kv_enabled = True \<rparr>) hs"
  using assms
proof (induction hs)
  case Nil
  then show ?case by simp
next
  case (Cons p hs)
  have "header_of_match (header_line p)
          = [\<lparr> kv_key = fst p, kv_value = interp (snd p), kv_enabled = True \<rparr>]"
    unfolding header_line_def using Cons.prems
    by (intro header_of_match_line) (simp_all add: clean_value_def)
  with Cons show ?case
    by simp
qed

lemma lines_unquoted:
  assumes "list_all (\<lambda>p. clean_name (fst p) \<and> clean_value (interp (snd p))) hs"
  shows "list_all (\<lambda>p. dquote \<notin> set (header_line p)) hs"
  using assms
  by (induction hs) (auto simp: header_line_def clean_name_def clean_value_def dquote_def)

lemma scan_generated:
  assumes "list_all (\<lambda>c. c \<noteq> dquote \<and> \<not> is_space c) (buildFullUrl L st)"
    and "list_all is_word (http_method st)"
    and "list_all (\<lambda>p. clean_name (fst p) \<and> clean_value (interp (snd p))) (Object_entries (buildHeaders L st))"
  shows "matchAll_headers (generateCurl L st)
       = map header_line (Object_entries (buildHeaders L st)) @ matchAll_headers (body_part L st)"
proof -
  let ?hs = "Object_entries (buildHeaders L st)"
  have "matchAll_headers (generateCurl L st)
          = matchAll_headers (method_part st @ concat (map header_flag ?hs) @ body_part L st)"
    using matchAll_prefix [OF assms(1)] by (simp only: generateCurl_parts)
  also have "\<dots> = matchAll_headers (concat (map header_flag ?hs) @ body_part L st)"
    using assms(2) by (rule matchAll_method_part)
  also have "\<dots> = map header_line ?hs @ matchAll_headers (body_part L st)"
    using lines_unquoted [OF assms(3)] by (rule matchAll_flags)
  finally show ?thesis .
qed

lemma method_generated:
  assumes "list_all (\<lambda>c. c \<noteq> dquote \<and> \<not> is_space c) (buildFullUrl L st)"
    and "http_method st \<noteq> []" and "list_all is_word (http_method st)"
    and "http_method st \<noteq> ''GET''"
  shows "find_first match_method_at (generateCurl L st) = Some (http_method st)"
proof -
  let ?hs = "Object_entries (buildHeaders L st)"
  have "method_part st = continuation @ ''-X '' @ http_method st"
    using assms(4) by (simp add: method_part_def)
  then have "find_first match_method_at (generateCurl L st)
        = find_first match_method_at (continuation @ ''-X '' @ http_method st
            @ (concat (map header_flag ?hs) @ body_part L st))"
    using ff_prefix [OF assms(1)] by (simp only: generateCurl_parts) simp
  also have "\<dots> = Some (http_method st)"
    using assms(2,3) flags_tail_start by (rule ff_method_flag)
  finally show ?thesis .
qed

subsection \<open>Headers built from distinct rows\<close>

lemma obj_set_fresh: "k \<notin> fst ` set h \<Longrightarrow> obj_set h k v = h @ [(k, v)]"
  by (induction h) auto

lemma foldl_obj_set_fresh:
  assumes "distinct (map f rows)" and "set (map f rows) \<inter> fst ` set h = {}"
  shows "foldl (\<lambda>h r. obj_set h (f r) (g r)) h rows = h @ map (\<lambda>r. (f r, g r)) rows"
  using assms
proof (induction rows arbitrary: h)
  case Nil
  then show ?case by simp
next
  case (Cons r rows)
  have a: "obj_set h (f r) (g r) = h @ [(f r, g r)]"
    using Cons.prems(2) by (intro obj_set_fresh) auto
  have "foldl (\<lambda>h r. obj_set h (f r) (g r)) (h @ [(f r, g r)]) rows
          = (h @ [(f r, g r)]) @ map (\<lambda>r. (f r, g r)) rows"
    using Cons.prems by (intro Cons.IH) auto
  then show ?case
    by (simp add: a)
qed

lemma Object_entries_plain:
  assumes "list_all (\<lambda>p. \<not> is_array_index (fst p)) obj"
  shows "Object_entries obj = obj"
proof -
  have "filter (\<lambda>p. is_array_index (fst p)) obj = []"
    using assms by (simp add: list_all_iff filter_empty_conv)
  moreover have "filter (\<lambda>p. \<not> is_array_index (fst p)) obj = obj"
    using assms by (simp add: list_all_iff filter_id_conv)
  ultimately show ?thesis
    by (simp add: Object_entries_def)
qed

lemma entries_of_rows:
  assumes "authType st = ''none''" and "bodyType st = ''none''"
    and "distinct (map kv_key (enabled_rows (headers st)))"
    and "list_all (\<lambda>r. \<not> is_array_index (kv_key r) \<and> kv_key r \<noteq> ''__proto__'') (enabled_rows (headers st))"
  shows "Object_entries (buildHeaders L st)
       = map (\<lambda>r. (kv_key r, Some (kv_value r))) (enabled_rows (headers st))"
proof -
  have f: "filter (\<lambda>r. kv_key r \<noteq> ''__proto__'') (enabled_rows (headers st)) = enabled_rows (headers st)"
    using assms(4) by (simp add: list_all_iff filter_id_conv)
  have "buildHeaders L st
          = [] @ map (\<lambda>r. (kv_key r, Some (kv_value r))) (enabled_rows (headers st))"
    using assms(3) by (simp only: buildHeaders_plain [OF assms(1,2)] f) (intro foldl_obj_set_fresh, simp_all)
  moreover have "list_all (\<lambda>p. \<not> is_array_index (fst p))
          (map (\<lambda>r. (kv_key r, Some (kv_value r))) (enabled_rows (headers st)))"
    using assms(4) by (simp add: list_all_iff)
  ultimately show ?thesis
    by (simp add: Object_entries_plain)
qed

lemma rows_of_entries:
  "map (\<lambda>p. \<lparr> kv_key = fst p, kv_value = interp (snd p), kv_enabled = True \<rparr>)
     (map (\<lambda>r. (kv_key r, Some (kv_value r))) (enabled_rows rows)) = enabled_rows rows"
proof -
  have "\<lparr> kv_key = kv_key r, kv_value = kv_value r, kv_enabled = True \<rparr> = r"
    if "r \<in> set (enabled_rows rows)" for r
    using that by (simp add: enabled_rows_def)
  then show ?thesis
    by (simp add: interp_def map_idI)
qed

subsection \<open>The round trip\<close>

lemma extract_generated:
  "extractRequestFromJob (Some \<lparr> curl_command = Some (generateCurl L st), table_name = t \<rparr>)
     = Some \<lparr> sr_name = (if truthy_str t then interp t else ''Saved Request''),
              sr_method = (case find_first match_method_at (generateCurl L st) of Some m \<Rightarrow> m | None \<Rightarrow> ''GET''),
              sr_url = (case find_first match_url_at (generateCurl L st) of Some u \<Rightarrow> u | None \<Rightarrow> []),
              sr_headers = concat (map header_of_match (matchAll_headers (generateCurl L st))),
              sr_params = [], sr_authType = ''none'', sr_bodyType = ''none'', sr_jsonBody = [],
              sr_formData = [] \<rparr>"
proof -
  have "generateCurl L st \<noteq> []"
    by (simp add: generateCurl_parts)
  then show ?thesis
    by (simp add: extractRequestFromJob_def truthy_str_def interp_def [of "Some (generateCurl L st)"]
        Let_def del: find_first.simps)
qed

lemma repeated_entries:
  "Object_entries (buildHeaders sample_lib repeated_builder) = [(''Accept'', Some ''text/plain'')]"
  by (simp add: repeated_builder_def initial_builder_def empty_row_def buildHeaders_def js_assign_def enabled_rows_def
      Object_entries_def is_array_index_def is_digit_def code_unit_def Let_def)

text \<open>
  Claim C9, as stated, fails: the headers of the request are a plain object, so of two
  enabled header rows \<open>Accept: application/json\<close> and \<open>Accept: text/plain\<close> (no double
  quote, no newline) the generated command carries one \<open>-H\<close> flag, and parsing it back
  gives the single header \<open>Accept: text/plain\<close>, not the two enabled rows.
\<close>

theorem round_trip_repeated_header_lost:
  "buildFullUrl sample_lib repeated_builder = ''http://localhost:3001/api/users''
   \<and> enabled_rows (headers repeated_builder)
       = [\<lparr> kv_key = ''Accept'', kv_value = ''application/json'', kv_enabled = True \<rparr>,
          \<lparr> kv_key = ''Accept'', kv_value = ''text/plain'', kv_enabled = True \<rparr>]
   \<and> list_all (\<lambda>r. dquote \<notin> set (kv_key r @ kv_value r) \<and> newline \<notin> set (kv_key r @ kv_value r))
         (enabled_rows (headers repeated_builder))
   \<and> map_option sr_headers
         (extractRequestFromJob
            (Some \<lparr> curl_command = Some (generateCurl sample_lib repeated_builder), table_name = None \<rparr>))
       = Some [\<lparr> kv_key = ''Accept'', kv_value = ''text/plain'', kv_enabled = True \<rparr>]
   \<and> map_option sr_headers
         (extractRequestFromJob
            (Some \<lparr> curl_command = Some (generateCurl sample_lib repeated_builder), table_name = None \<rparr>))
       \<noteq> Some (enabled_rows (headers repeated_builder))"
proof -
  have a: "buildFullUrl sample_lib repeated_builder = ''http://localhost:3001/api/users''"
    by (simp add: buildFullUrl_def repeated_builder_def initial_builder_def sample_lib_def startsWith_def)
  have b: "enabled_rows (headers repeated_builder)
       = [\<lparr> kv_key = ''Accept'', kv_value = ''application/json'', kv_enabled = True \<rparr>,
          \<lparr> kv_key = ''Accept'', kv_value = ''text/plain'', kv_enabled = True \<rparr>]"
    by (simp add: repeated_builder_def initial_builder_def empty_row_def enabled_rows_def)
  have c: "list_all (\<lambda>r. dquote \<notin> set (kv_key r @ kv_value r) \<and> newline \<notin> set (kv_key r @ kv_value r))
         (enabled_rows (headers repeated_builder))"
    by (simp add: b dquote_def newline_def)
  have u: "list_all (\<lambda>c. c \<noteq> dquote \<and> \<not> is_space c) (buildFullUrl sample_lib repeated_builder)"
    by (simp add: a dquote_def is_space_def)
  have m: "list_all is_word (http_method repeated_builder)"
    by (simp add: repeated_builder_def initial_builder_def is_word_def is_digit_def code_unit_def)
  have h: "list_all (\<lambda>p. clean_name (fst p) \<and> clean_value (interp (snd p)))
           (Object_entries (buildHeaders sample_lib repeated_builder))"
    by (simp add: repeated_entries clean_name_def clean_value_def interp_def js_trim_def is_space_def dquote_def)
  have "body_part sample_lib repeated_builder = []"
    by (simp add: body_part_def repeated_builder_def initial_builder_def)
  then have "matchAll_headers (generateCurl sample_lib repeated_builder)
          = map header_line (Object_entries (buildHeaders sample_lib repeated_builder))"
    using scan_generated [OF u m h] by (simp add: matchAll_headers.simps(1))
  then have "concat (map header_of_match (matchAll_headers (generateCurl sample_lib repeated_builder)))
          = [\<lparr> kv_key = ''Accept'', kv_value = ''text/plain'', kv_enabled = True \<rparr>]"
    using headers_of_lines [OF h] by (simp add: repeated_entries interp_def)
  then have d: "map_option sr_headers
         (extractRequestFromJob
            (Some \<lparr> curl_command = Some (generateCurl sample_lib repeated_builder), table_name = None \<rparr>))
       = Some [\<lparr> kv_key = ''Accept'', kv_value = ''text/plain'', kv_enabled = True \<rparr>]"
    by (simp add: extract_generated)
  show ?thesis
    by (intro conjI a b c d) (simp add: d b)
qed

text \<open>
  Claim C9, amended. Round trip: for every request built in the request builder whose full
  URL is not empty and, as the URL class serialises it, has no double quote and no
  whitespace, whose method is a word, and whose built headers (the entries of the plain
  object: one per name, the last value of a repeated name) have clean names and values
  (no double quote, no colon in a name, no whitespace at either end), parsing the
  generated cURL command back as the jobs list does recovers the same full URL, the same
  method whenever an explicit \<open>-X\<close> flag was emitted (the method is not GET), and the
  built headers in order as its first headers, which are all its headers when no body
  flag was emitted. With no authentication and no body type, distinct header names and
  no name that is an array index or \<open>__proto__\<close>, these are the enabled header rows in
  order. Nothing is said of the method recovered when no \<open>-X\<close> flag was emitted, nor of
  the headers recovered after the built ones when a body flag was emitted.
\<close>

theorem curl_round_trip:
  assumes "buildFullUrl L st \<noteq> []"
    and "list_all (\<lambda>c. c \<noteq> dquote \<and> \<not> is_space c) (buildFullUrl L st)"
    and "http_method st \<noteq> []" and "list_all is_word (http_method st)"
    and "list_all (\<lambda>p. clean_name (fst p) \<and> clean_value (interp (snd p)))
           (Object_entries (buildHeaders L st))"
  shows "map_option sr_url
           (extractRequestFromJob (Some \<lparr> curl_command = Some (generateCurl L st), table_name = t \<rparr>))
         = Some (buildFullUrl L st)
       \<and> (http_method st \<noteq> ''GET''
            \<longrightarrow> map_option sr_method
                  (extractRequestFromJob (Some \<lparr> curl_command = Some (generateCurl L st), table_name = t \<rparr>))
                = Some (http_method st))
       \<and> map_option (\<lambda>r. take (length (Object_entries (buildHeaders L st))) (sr_headers r))
           (extractRequestFromJob (Some \<lparr> curl_command = Some (generateCurl L st), table_name = t \<rparr>))
         = Some (map (\<lambda>p. \<lparr> kv_key = fst p, kv_value = interp (snd p), kv_enabled = True \<rparr>)
                   (Object_entries (buildHeaders L st)))
       \<and> (\<not> (truthy_str (buildBody L st) \<and> http_method st \<noteq> ''GET'')
            \<longrightarrow> map_option sr_headers
                  (extractRequestFromJob (Some \<lparr> curl_command = Some (generateCurl L st), table_name = t \<rparr>))
                = Some (map (\<lambda>p. \<lparr> kv_key = fst p, kv_value = interp (snd p), kv_enabled = True \<rparr>)
                          (Object_entries (buildHeaders L st))))
       \<and> (authType st = ''none'' \<and> bodyType st = ''none''
              \<and> distinct (map kv_key (enabled_rows (headers st)))
              \<and> list_all (\<lambda>r. \<not> is_array_index (kv_key r) \<and> kv_key r \<noteq> ''__proto__'')
                    (enabled_rows (headers st))
            \<longrightarrow> map_option sr_headers
                  (extractRequestFromJob (Some \<lparr> curl_command = Some (generateCurl L st), table_name = t \<rparr>))
                = Some (enabled_rows (headers st)))"
proof -
  let ?hs = "Object_entries (buildHeaders L st)"
  let ?rows = "map (\<lambda>p. \<lparr> kv_key = fst p, kv_value = interp (snd p), kv_enabled = True \<rparr>) ?hs"
  let ?job = "Some \<lparr> curl_command = Some (generateCurl L st), table_name = t \<rparr>"
  let ?extra = "concat (map header_of_match (matchAll_headers (body_part L st)))"
  have "dquote \<notin> set (buildFullUrl L st)"
    using assms(2) by (auto simp: list_all_iff)
  with assms(1) have "find_first match_url_at (generateCurl L st) = Some (buildFullUrl L st)"
    by (simp only: generateCurl_parts) (rule find_url)
  then have c1: "map_option sr_url (extractRequestFromJob ?job) = Some (buildFullUrl L st)"
    by (simp add: extract_generated)
  have c2: "http_method st \<noteq> ''GET''
        \<longrightarrow> map_option sr_method (extractRequestFromJob ?job) = Some (http_method st)"
  proof
    assume "http_method st \<noteq> ''GET''"
    with assms(2,3,4) have "find_first match_method_at (generateCurl L st) = Some (http_method st)"
      by (rule method_generated)
    then show "map_option sr_method (extractRequestFromJob ?job) = Some (http_method st)"
      by (simp add: extract_generated)
  qed
  have "matchAll_headers (generateCurl L st) = map header_line ?hs @ matchAll_headers (body_part L st)"
    using assms(2,4,5) by (rule scan_generated)
  then have h: "map_option sr_headers (extractRequestFromJob ?job) = Some (?rows @ ?extra)"
    using headers_of_lines [OF assms(5)] by (simp add: extract_generated)
  have c3: "map_option (\<lambda>r. take (length ?hs) (sr_headers r)) (extractRequestFromJob ?job) = Some ?rows"
    using h by (cases "extractRequestFromJob ?job") auto
  have c4: "\<not> (truthy_str (buildBody L st) \<and> http_method st \<noteq> ''GET'')
        \<longrightarrow> map_option sr_headers (extractRequestFromJob ?job) = Some ?rows"
  proof
    assume "\<not> (truthy_str (buildBody L st) \<and> http_method st \<noteq> ''GET'')"
    then have "body_part L st = []"
      unfolding body_part_def by (simp only: if_False)
    then have "?extra = []"
      by (simp add: matchAll_headers.simps)
    with h show "map_option sr_headers (extractRequestFromJob ?job) = Some ?rows"
      by simp
  qed
  have c5: "authType st = ''none'' \<and> bodyType st = ''none''
              \<and> distinct (map kv_key (enabled_rows (headers st)))
              \<and> list_all (\<lambda>r. \<not> is_array_index (kv_key r) \<and> kv_key r \<noteq> ''__proto__'')
                    (enabled_rows (headers st))
            \<longrightarrow> map_option sr_headers (extractRequestFromJob ?job) = Some (enabled_rows (headers st))"
  proof (intro impI, elim conjE)
    assume a: "authType st = ''none''" "bodyType st = ''none''"
      "distinct (map kv_key (enabled_rows (headers st)))"
      "list_all (\<lambda>r. \<not> is_array_index (kv_key r) \<and> kv_key r \<noteq> ''__proto__'') (enabled_rows (headers st))"
    have "?rows = enabled_rows (headers st)"
      by (simp only: entries_of_rows [OF a] rows_of_entries)
    moreover have "\<not> (truthy_str (buildBody L st) \<and> http_method st \<noteq> ''GET'')"
      using a(2) by (simp add: buildBody_def truthy_str_def)
    ultimately show "map_option sr_headers (extractRequestFromJob ?job) = Some (enabled_rows (headers st))"
      using c4 by simp
  qed
  show ?thesis
    by (intro conjI c1 c2 c3 c4 c5)
qed

lemma auth_entries:
  "Object_entries (buildHeaders sample_lib auth_builder)
     = [(''Authorization'', Some ''Bearer test-token-123''), (''Content-Type'', Some ''application/json'')]"
  by (simp add: auth_builder_def initial_builder_def empty_row_def buildHeaders_def js_assign_def enabled_rows_def
      Object_entries_def is_array_index_def is_digit_def code_unit_def Let_def)

lemma accept_entries:
  "Object_entries (buildHeaders sample_lib accept_builder) = [(''Accept'', Some ''application/json'')]"
  by (simp add: accept_builder_def initial_builder_def empty_row_def buildHeaders_def js_assign_def enabled_rows_def
      Object_entries_def is_array_index_def is_digit_def code_unit_def Let_def)

theorem curl_round_trip_witness:
  "map_option sr_url
     (extractRequestFromJob
        (Some \<lparr> curl_command = Some (generateCurl sample_lib auth_builder), table_name = None \<rparr>))
     = Some ''http://localhost:3001/api/auth/data''
   \<and> map_option sr_method
     (extractRequestFromJob
        (Some \<lparr> curl_command = Some (generateCurl sample_lib auth_builder), table_name = None \<rparr>))
     = Some ''POST''
   \<and> map_option (\<lambda>r. take 2 (sr_headers r))
     (extractRequestFromJob
        (Some \<lparr> curl_command = Some (generateCurl sample_lib auth_builder), table_name = None \<rparr>))
     = Some [\<lparr> kv_key = ''Authorization'', kv_value = ''Bearer test-token-123'', kv_enabled = True \<rparr>,
             \<lparr> kv_key = ''Content-Type'', kv_value = ''application/json'', kv_enabled = True \<rparr>]
   \<and> map_option sr_headers
       (extractRequestFromJob
          (Some \<lparr> curl_command = Some (generateCurl sample_lib accept_builder), table_name = None \<rparr>))
     = Some [\<lparr> kv_key = ''Accept'', kv_value = ''application/json'', kv_enabled = True \<rparr>]
   \<and> map_option sr_headers
       (extractRequestFromJob
          (Some \<lparr> curl_command = Some (generateCurl sample_lib accept_builder), table_name = None \<rparr>))
     = Some (enabled_rows (headers accept_builder))"
proof -
  have u1: "buildFullUrl sample_lib auth_builder = ''http://localhost:3001/api/auth/data''"
    by (simp add: buildFullUrl_def auth_builder_def initial_builder_def sample_lib_def startsWith_def)
  have m1: "http_method auth_builder = ''POST''"
    by (simp add: auth_builder_def initial_builder_def)
  have h1: "buildFullUrl sample_lib auth_builder \<noteq> []"
    "list_all (\<lambda>c. c \<noteq> dquote \<and> \<not> is_space c) (buildFullUrl sample_lib auth_builder)"
    by (simp_all add: u1 dquote_def is_space_def)
  have h2: "http_method auth_builder \<noteq> []" "list_all is_word (http_method auth_builder)"
    by (simp_all add: m1 is_word_def is_digit_def code_unit_def)
  have h3: "list_all (\<lambda>p. clean_name (fst p) \<and> clean_value (interp (snd p)))
           (Object_entries (buildHeaders sample_lib auth_builder))"
    by (simp add: auth_entries clean_name_def clean_value_def interp_def js_trim_def is_space_def dquote_def)
  note t1 = curl_round_trip [OF h1 h2 h3, of None]
  have a1: "map_option sr_url
     (extractRequestFromJob
        (Some \<lparr> curl_command = Some (generateCurl sample_lib auth_builder), table_name = None \<rparr>))
     = Some ''http://localhost:3001/api/auth/data''"
    using t1 [THEN conjunct1] by (simp only: u1)
  have a2: "map_option sr_method
     (extractRequestFromJob
        (Some \<lparr> curl_command = Some (generateCurl sample_lib auth_builder), table_name = None \<rparr>))
     = Some ''POST''"
    using t1 [THEN conjunct2, THEN conjunct1] by (simp add: m1)
  have a3: "map_option (\<lambda>r. take 2 (sr_headers r))
     (extractRequestFromJob
        (Some \<lparr> curl_command = Some (generateCurl sample_lib auth_builder), table_name = None \<rparr>))
     = Some [\<lparr> kv_key = ''Authorization'', kv_value = ''Bearer test-token-123'', kv_enabled = True \<rparr>,
             \<lparr> kv_key = ''Content-Type'', kv_value = ''application/json'', kv_enabled = True \<rparr>]"
    using t1 [THEN conjunct2, THEN conjunct2, THEN conjunct1]
    by (simp only: auth_entries) (simp add: interp_def numeral_2_eq_2)
  have u2: "buildFullUrl sample_lib accept_builder = ''http://localhost:3001/api/users?page=1''"
    by (simp add: buildFullUrl_def accept_builder_def initial_builder_def sample_lib_def startsWith_def
        enabled_rows_def empty_row_def)
  have m2: "http_method accept_builder = ''GET''"
    by (simp add: accept_builder_def initial_builder_def)
  have r2: "enabled_rows (headers accept_builder)
          = [\<lparr> kv_key = ''Accept'', kv_value = ''application/json'', kv_enabled = True \<rparr>]"
    by (simp add: accept_builder_def initial_builder_def enabled_rows_def empty_row_def)
  have k1: "buildFullUrl sample_lib accept_builder \<noteq> []"
    "list_all (\<lambda>c. c \<noteq> dquote \<and> \<not> is_space c) (buildFullUrl sample_lib accept_builder)"
    by (simp_all add: u2 dquote_def is_space_def)
  have k2: "http_method accept_builder \<noteq> []" "list_all is_word (http_method accept_builder)"
    by (simp_all add: m2 is_word_def is_digit_def code_unit_def)
  have k3: "list_all (\<lambda>p. clean_name (fst p) \<and> clean_value (interp (snd p)))
           (Object_entries (buildHeaders sample_lib accept_builder))"
    by (simp add: accept_entries clean_name_def clean_value_def interp_def js_trim_def is_space_def dquote_def)
  have k6: "authType accept_builder = ''none'' \<and> bodyType accept_builder = ''none''
              \<and> distinct (map kv_key (enabled_rows (headers accept_builder)))
              \<and> list_all (\<lambda>r. \<not> is_array_index (kv_key r) \<and> kv_key r \<noteq> ''__proto__'')
                    (enabled_rows (headers accept_builder))"
    by (simp add: r2 is_array_index_def is_digit_def code_unit_def) (simp add: accept_builder_def initial_builder_def)
  have k5: "\<not> (truthy_str (buildBody sample_lib accept_builder) \<and> http_method accept_builder \<noteq> ''GET'')"
    by (simp add: m2)
  note t2 = curl_round_trip [OF k1 k2 k3, of None]
  have b1: "map_option sr_headers
       (extractRequestFromJob
          (Some \<lparr> curl_command = Some (generateCurl sample_lib accept_builder), table_name = None \<rparr>))
     = Some [\<lparr> kv_key = ''Accept'', kv_value = ''application/json'', kv_enabled = True \<rparr>]"
    using t2 [THEN conjunct2, THEN conjunct2, THEN conjunct2, THEN conjunct1, THEN mp, OF k5]
    by (simp only: accept_entries) (simp add: interp_def)
  have b2: "map_option sr_headers
       (extractRequestFromJob
          (Some \<lparr> curl_command = Some (generateCurl sample_lib accept_builder), table_name = None \<rparr>))
     = Some (enabled_rows (headers accept_builder))"
    using t2 [THEN conjunct2, THEN conjunct2, THEN conjunct2, THEN conjunct2, THEN mp, OF k6] .
  show ?thesis
    by (intro conjI a1 a2 a3 b1 b2)
qed

text \<open>
  The method of a request without \<open>-X\<close> flag is searched in the whole command, quoted
  header values included: with the method GET and the enabled header
  \<open>X-Note: use -X POST\<close> the generated command has no \<open>-X\<close> flag of its own, and parsing
  it back gives the method POST.
\<close>

lemma note_command:
  "generateCurl sample_lib note_builder
     = ''curl \"http://localhost:3001/api/users\"'' @ continuation @ ''-H \"X-Note: use -X POST\"''"
  by (simp add: generateCurl_def buildFullUrl_def buildHeaders_def js_assign_def buildBody_def note_builder_def
      initial_builder_def empty_row_def sample_lib_def enabled_rows_def startsWith_def Let_def
      Object_entries_def is_array_index_def is_digit_def code_unit_def header_flag_def interp_def
      truthy_str_def dquote_def)

lemma method_found_in_header_value:
  "http_method note_builder = ''GET''
   \<and> map_option sr_method
         (extractRequestFromJob
            (Some \<lparr> curl_command = Some (generateCurl sample_lib note_builder), table_name = None \<rparr>))
       = Some ''POST''"
proof -
  have a: "http_method note_builder = ''GET''"
    by (simp add: note_builder_def initial_builder_def)
  have "find_first match_method_at (generateCurl sample_lib note_builder) = Some ''POST''"
    by (simp add: note_command continuation_def backslash_def newline_def match_method_at_def
        startsWith_def is_space_def is_word_def is_digit_def code_unit_def)
  then have d: "map_option sr_method
         (extractRequestFromJob
            (Some \<lparr> curl_command = Some (generateCurl sample_lib note_builder), table_name = None \<rparr>))
       = Some ''POST''"
    by (simp add: extract_generated)
  show ?thesis
    by (intro conjI a d)
qed

end
